theory Spec2Isabelle
  imports Main "HOL-Library.Sublist"
begin

section \<open>ts-esm-migrate: the import-path rewriter of \<open>src/index.mts\<close>\<close>

text \<open>
  The program walks a folder, collects every \<open>.ts\<close>/\<open>.tsx\<close> file into the set
  \<open>visited\<close>, and rewrites the relative module specifiers of each file so that they carry
  the extension a strict ESM loader expects. This theory embeds the functions of
  \<open>src/index.mts\<close> and proves the properties the specification states about them.

  JavaScript strings are modelled as \<open>string\<close> (a list of characters). The functions
  \<open>startsWith\<close> and \<open>endsWith\<close> are \<open>String.prototype.startsWith\<close> and
  \<open>String.prototype.endsWith\<close>.
\<close>

subsection \<open>Strings\<close>

definition startsWith :: "string \<Rightarrow> string \<Rightarrow> bool" where
  "startsWith s p = prefix p s"

definition endsWith :: "string \<Rightarrow> string \<Rightarrow> bool" where
  "endsWith s p = suffix p s"

subsection \<open>\<open>join\<close> of \<open>node:path\<close> (POSIX)\<close>

text \<open>
  \<open>join\<close> is imported from \<open>node:path\<close>; it is the platform's, not the program's. It
  is modelled here as Node documents and implements \<open>path.posix.join\<close>: the non-empty
  arguments are concatenated with \<open>/\<close> and the result is normalised. Normalisation reads
  the path segment by segment (\<open>normalizeString\<close>): an empty segment and \<open>.\<close> are
  dropped, \<open>..\<close> removes the segment before it when there is one that is not itself
  \<open>..\<close>, and is otherwise kept for a relative path and dropped for an absolute one.
  A trailing \<open>/\<close> is kept, and an empty result is \<open>.\<close> (or \<open>/\<close> when absolute).
\<close>

fun splitSlash :: "string \<Rightarrow> string list" where
  "splitSlash [] = [[]]"
| "splitSlash (c # cs) =
     (if c = CHR ''/'' then [] # splitSlash cs
      else (case splitSlash cs of
              [] \<Rightarrow> [[c]]
            | s # ss \<Rightarrow> (c # s) # ss))"

fun joinSlash :: "string list \<Rightarrow> string" where
  "joinSlash [] = []"
| "joinSlash [s] = s"
| "joinSlash (s # t # ss) = s @ ''/'' @ joinSlash (t # ss)"

definition normalizeStep :: "bool \<Rightarrow> string list \<Rightarrow> string \<Rightarrow> string list" where
  "normalizeStep allowAboveRoot res seg =
     (if seg = [] \<or> seg = ''.'' then res
      else if seg = ''..'' then
        (if res \<noteq> [] \<and> last res \<noteq> ''..'' then butlast res
         else if allowAboveRoot then res @ [''..'']
         else res)
      else res @ [seg])"

definition normalizeString :: "string \<Rightarrow> bool \<Rightarrow> string" where
  "normalizeString path allowAboveRoot =
     joinSlash (foldl (normalizeStep allowAboveRoot) [] (splitSlash path))"

definition normalize :: "string \<Rightarrow> string" where
  "normalize path =
     (if path = [] then ''.''
      else
        let isAbsolute = (hd path = CHR ''/'');
            trailingSeparator = (last path = CHR ''/'');
            p = normalizeString path (\<not> isAbsolute)
        in if p = [] then
             (if isAbsolute then ''/'' else if trailingSeparator then ''./'' else ''.'')
           else
             (let p' = (if trailingSeparator then p @ ''/'' else p)
              in if isAbsolute then ''/'' @ p' else p'))"

definition join :: "string list \<Rightarrow> string" where
  "join args =
     (let parts = filter (\<lambda>arg. arg \<noteq> []) args
      in if parts = [] then ''.'' else normalize (joinSlash parts))"

subsection \<open>The syntax tree\<close>

text \<open>
  The TypeScript compiler's nodes, reduced to the kinds \<open>visit\<close> and
  \<open>updateImportPath\<close> tell apart. Each constructor carries the fields the source reads
  or passes on, in the order of the corresponding \<open>factory.update...\<close> call; every other
  kind of node is an \<open>OtherNode\<close> with its kind and its children.
\<close>

datatype node =
    StringLiteral string
  | ImportKeyword
  | SourceFile "node list"
  | ImportDeclaration "node list" "node option" node "node option"
  | ExportDeclaration "node list" bool "node option" "node option" "node option"
  | CallExpression node "node list" "node list"
  | ImportTypeNode node "node option" "node option" "node list" bool
  | LiteralTypeNode (literal: node)
  | OtherNode string "node list"

fun isStringLiteral :: "node \<Rightarrow> bool" where
  "isStringLiteral (StringLiteral _) = True"
| "isStringLiteral _ = False"

fun isLiteralTypeNode :: "node \<Rightarrow> bool" where
  "isLiteralTypeNode (LiteralTypeNode _) = True"
| "isLiteralTypeNode _ = False"

subsection \<open>Module state\<close>

text \<open>
  The module-level variables: the set \<open>visited\<close> (the File Index, filled once by the
  walk), and the two variables \<open>currentVisitingFile\<close> and \<open>hasUpdate\<close> that the run
  driver assigns before each file is transformed. \<open>values.jsx\<close> is the \<open>--jsx\<close> flag.
\<close>

record globals =
  visited :: "string set"
  currentVisitingFile :: string
  hasUpdate :: bool

subsection \<open>\<open>updateImportPath\<close>\<close>

text \<open>
  \<open>resolution\<close> is line 125, and the four tests are the conditions of lines 126, 129,
  132 and 135.
\<close>

definition resolution :: "globals \<Rightarrow> string \<Rightarrow> string" where
  "resolution g spec = join [currentVisitingFile g, ''../'', spec]"

definition fileMatch :: "globals \<Rightarrow> string \<Rightarrow> bool" where
  "fileMatch g spec \<longleftrightarrow>
     resolution g spec @ ''.ts'' \<in> visited g \<or> resolution g spec @ ''.d.ts'' \<in> visited g"

definition tsxMatch :: "globals \<Rightarrow> string \<Rightarrow> bool" where
  "tsxMatch g spec \<longleftrightarrow> resolution g spec @ ''.tsx'' \<in> visited g"

definition indexMatch :: "globals \<Rightarrow> string \<Rightarrow> bool" where
  "indexMatch g spec \<longleftrightarrow>
     join [resolution g spec, ''index.ts''] \<in> visited g \<or>
     join [resolution g spec, ''index.d.ts''] \<in> visited g"

definition indexTsxMatch :: "globals \<Rightarrow> string \<Rightarrow> bool" where
  "indexTsxMatch g spec \<longleftrightarrow> join [resolution g spec, ''index.tsx''] \<in> visited g"

text \<open>
  The source declares three overloads of \<open>updateImportPath\<close>. \<open>updateImportPathExpr\<close>
  is the body from line 120 on, for a node that is present (the first two overloads);
  \<open>updateImportPath\<close> is the implementation signature, whose line 119 returns an absent
  node as it is. The result pairs the returned node with the module state, where
  \<open>hasUpdate\<close> may have been set.
\<close>

fun updateImportPathExpr :: "bool \<Rightarrow> node \<Rightarrow> globals \<Rightarrow> node \<times> globals" where
  "updateImportPathExpr jsx (StringLiteral spec) g =
     (if \<not> startsWith spec ''.'' then (StringLiteral spec, g)
      else if endsWith spec ''.js'' then (StringLiteral spec, g)
      else if fileMatch g spec then
        (StringLiteral (spec @ ''.js''), g\<lparr>hasUpdate := True\<rparr>)
      else if tsxMatch g spec then
        (StringLiteral (spec @ (if jsx then ''.jsx'' else ''.js'')), g\<lparr>hasUpdate := True\<rparr>)
      else if indexMatch g spec then
        (StringLiteral (spec @ ''/index.js''), g\<lparr>hasUpdate := True\<rparr>)
      else if indexTsxMatch g spec then
        (StringLiteral (spec @ (if jsx then ''/index.jsx'' else ''/index.js'')),
         g\<lparr>hasUpdate := True\<rparr>)
      else (StringLiteral spec, g))"
| "updateImportPathExpr jsx node g = (node, g)"

fun updateImportPath :: "bool \<Rightarrow> node option \<Rightarrow> globals \<Rightarrow> node option \<times> globals" where
  "updateImportPath jsx None g = (None, g)"
| "updateImportPath jsx (Some node) g =
     (case updateImportPathExpr jsx node g of (node', g') \<Rightarrow> (Some node', g'))"

subsection \<open>The visitor\<close>

text \<open>
  \<open>visit\<close> is lines 45 to 87. \<open>visitNodes\<close> and \<open>visitOption\<close> are what
  \<open>ts.visitEachChild\<close> does with a node array and with an optional child: each child is
  visited in order and the node is rebuilt from the results. An import declaration, an
  export declaration, a dynamic \<open>import(...)\<close> call with a first argument and an import
  type with a string literal argument are rebuilt with the updated specifier and their
  other fields as they are, without a visit of those fields.
\<close>

fun visit :: "bool \<Rightarrow> node \<Rightarrow> globals \<Rightarrow> node \<times> globals"
  and visitNodes :: "bool \<Rightarrow> node list \<Rightarrow> globals \<Rightarrow> node list \<times> globals"
  and visitOption :: "bool \<Rightarrow> node option \<Rightarrow> globals \<Rightarrow> node option \<times> globals"
where
  "visit jsx (SourceFile statements) g =
     (case visitNodes jsx statements g of (statements', g') \<Rightarrow> (SourceFile statements', g'))"
| "visit jsx (ImportDeclaration modifiers importClause moduleSpecifier assertClause) g =
     (case updateImportPathExpr jsx moduleSpecifier g of
        (moduleSpecifier', g') \<Rightarrow>
          (ImportDeclaration modifiers importClause moduleSpecifier' assertClause, g'))"
| "visit jsx (ExportDeclaration modifiers isTypeOnly exportClause moduleSpecifier assertClause) g =
     (case updateImportPath jsx moduleSpecifier g of
        (moduleSpecifier', g') \<Rightarrow>
          (ExportDeclaration modifiers isTypeOnly exportClause moduleSpecifier' assertClause, g'))"
| "visit jsx (CallExpression expression typeArguments arguments) g =
     (if expression = ImportKeyword \<and> arguments \<noteq> [] then
        (case updateImportPathExpr jsx (hd arguments) g of
           (argument', g') \<Rightarrow>
             (CallExpression expression typeArguments (argument' # tl arguments), g'))
      else
        (case visit jsx expression g of (expression', g1) \<Rightarrow>
         case visitNodes jsx typeArguments g1 of (typeArguments', g2) \<Rightarrow>
         case visitNodes jsx arguments g2 of (arguments', g3) \<Rightarrow>
           (CallExpression expression' typeArguments' arguments', g3)))"
| "visit jsx (ImportTypeNode argument assertions qualifier typeArguments isTypeOf) g =
     (if isLiteralTypeNode argument \<and> isStringLiteral (literal argument) then
        (case updateImportPathExpr jsx (literal argument) g of
           (literal', g') \<Rightarrow>
             (ImportTypeNode (LiteralTypeNode literal') assertions qualifier typeArguments
                isTypeOf, g'))
      else
        (case visit jsx argument g of (argument', g1) \<Rightarrow>
         case visitOption jsx assertions g1 of (assertions', g2) \<Rightarrow>
         case visitOption jsx qualifier g2 of (qualifier', g3) \<Rightarrow>
         case visitNodes jsx typeArguments g3 of (typeArguments', g4) \<Rightarrow>
           (ImportTypeNode argument' assertions' qualifier' typeArguments' isTypeOf, g4)))"
| "visit jsx (LiteralTypeNode lit) g =
     (case visit jsx lit g of (lit', g') \<Rightarrow> (LiteralTypeNode lit', g'))"
| "visit jsx (OtherNode kind children) g =
     (case visitNodes jsx children g of (children', g') \<Rightarrow> (OtherNode kind children', g'))"
| "visit jsx (StringLiteral spec) g = (StringLiteral spec, g)"
| "visit jsx ImportKeyword g = (ImportKeyword, g)"
| "visitNodes jsx [] g = ([], g)"
| "visitNodes jsx (n # ns) g =
     (case visit jsx n g of (n', g1) \<Rightarrow>
      case visitNodes jsx ns g1 of (ns', g2) \<Rightarrow> (n' # ns', g2))"
| "visitOption jsx None g = (None, g)"
| "visitOption jsx (Some n) g = (case visit jsx n g of (n', g') \<Rightarrow> (Some n', g'))"

subsection \<open>Blank lines: the sentinel comment\<close>

text \<open>
  \<open>replaceAll pat rep s\<close> is \<open>s.replace(/pat/g, rep)\<close> for a regular expression that
  matches the literal text \<open>pat\<close> and a replacement without \<open>$\<close> patterns: the matches
  are found from left to right and do not overlap. Both patterns of the program are
  literal and non-empty; for the empty pattern (which the program never uses) the model
  returns the text as it is.
\<close>

function replaceAll :: "string \<Rightarrow> string \<Rightarrow> string \<Rightarrow> string" where
  "replaceAll pat rep s =
     (if pat = [] \<or> s = [] then s
      else if prefix pat s then rep @ replaceAll pat rep (drop (length pat) s)
      else hd s # replaceAll pat rep (tl s))"
  by pat_completeness auto
termination
  by (relation "measure (\<lambda>(pat, rep, s). length s)") auto

declare replaceAll.simps [simp del]

definition newline :: char where
  "newline = CHR 0x0A"

definition sentinel :: string where
  "sentinel = ''/** THIS_IS_A_NEWLINE **/''"

text \<open>Line 96: \<open>file.replace(/\n\n/g, '\n/** THIS_IS_A_NEWLINE **/')\<close>.\<close>

definition markBlankLines :: "string \<Rightarrow> string" where
  "markBlankLines file = replaceAll [newline, newline] (newline # sentinel) file"

text \<open>Line 105: \<open>.replace(/\/\*\* THIS_IS_A_NEWLINE \*\*\//g, '\n')\<close>.\<close>

definition restoreBlankLines :: "string \<Rightarrow> string" where
  "restoreBlankLines printed = replaceAll sentinel [newline] printed"

subsection \<open>The file system and the external tools\<close>

text \<open>
  The world the program acts on: the content of each file by its path (\<open>readFile\<close>
  rejects for a path without content), the paths that cannot be written (\<open>writeFile\<close>
  rejects for them), what \<open>readdir\<close> with \<open>withFileTypes\<close> lists for a path (\<open>None\<close>
  when it throws), and the trace of what the program has done so far. A
  \<open>DirectoryEntry\<close> carries the listing of that directory.
\<close>

datatype dirent =
    FileEntry string
  | DirectoryEntry string "dirent list option"
  | OtherEntry string

datatype event =
    ConsoleLog string
  | Readdir string
  | ReadFile string
  | WriteFile string string

record world =
  files :: "string \<rightharpoonup> string"
  readOnly :: "string set"
  listing :: "string \<Rightarrow> dirent list option"
  trace :: "event list"

definition consoleLog :: "string \<Rightarrow> world \<Rightarrow> world" where
  "consoleLog line w = w\<lparr>trace := trace w @ [ConsoleLog line]\<rparr>"

definition readFile :: "string \<Rightarrow> world \<Rightarrow> string option \<times> world" where
  "readFile path w = (files w path, w\<lparr>trace := trace w @ [ReadFile path]\<rparr>)"

definition writeFile :: "string \<Rightarrow> string \<Rightarrow> world \<Rightarrow> bool \<times> world" where
  "writeFile path data w =
     (if path \<in> readOnly w then (False, w\<lparr>trace := trace w @ [WriteFile path data]\<rparr>)
      else (True, w\<lparr>files := (files w)(path \<mapsto> data),
                   trace := trace w @ [WriteFile path data]\<rparr>))"

text \<open>
  The parser and printer of the TypeScript compiler, \<open>JSON.parse\<close> and prettier are
  external: they are parameters. \<open>createSourceFile\<close> takes the file name, the text and
  whether the script kind is TSX; \<open>jsonParse\<close> and \<open>prettierFormat\<close> are \<open>None\<close> when
  they throw; \<open>truthy\<close> is JavaScript's truthiness of a parsed JSON value.
\<close>

record 'c externals =
  createSourceFile :: "string \<Rightarrow> string \<Rightarrow> bool \<Rightarrow> node"
  printFile :: "node \<Rightarrow> string"
  jsonParse :: "string \<Rightarrow> 'c option"
  truthy :: "'c \<Rightarrow> bool"
  prettierFormat :: "string \<Rightarrow> 'c \<Rightarrow> string option"

subsection \<open>The walk\<close>

text \<open>
  \<open>walk\<close> is lines 27 to 36 together with the loop of line 39 that adds each yielded
  path to \<open>visited\<close>. The state is the trace and the paths added so far, in insertion
  order; the result is \<open>Inl\<close> the trace when a \<open>readdir\<close> throws.
\<close>

definition addVisited :: "string \<Rightarrow> string list \<Rightarrow> string list" where
  "addVisited p vs = (if p \<in> set vs then vs else vs @ [p])"

fun walk :: "string \<Rightarrow> dirent list option \<Rightarrow> event list \<times> string list
    \<Rightarrow> event list + event list \<times> string list"
  and walkItems :: "string \<Rightarrow> dirent list \<Rightarrow> event list \<times> string list
    \<Rightarrow> event list + event list \<times> string list"
where
  "walk folder None (tr, vs) = Inl (tr @ [Readdir folder])"
| "walk folder (Some items) (tr, vs) = walkItems folder items (tr @ [Readdir folder], vs)"
| "walkItems folder [] st = Inr st"
| "walkItems folder (FileEntry name # rest) (tr, vs) =
     walkItems folder rest
       (tr, if endsWith name ''.ts'' \<or> endsWith name ''.tsx''
            then addVisited (join [folder, name]) vs else vs)"
| "walkItems folder (DirectoryEntry name sub # rest) st =
     (if name \<noteq> ''node_modules'' then
        (case walk (join [folder, name]) sub st of
           Inl tr \<Rightarrow> Inl tr
         | Inr st' \<Rightarrow> walkItems folder rest st')
      else walkItems folder rest st)"
| "walkItems folder (OtherEntry name # rest) st = walkItems folder rest st"

subsection \<open>The run driver\<close>

text \<open>
  \<open>processFile\<close> is the function mapped over the files at lines 92 to 112. Between
  the assignment of \<open>hasUpdate\<close> at line 101 and its test at line 104 there is no
  \<open>await\<close>, so the transformation of one file is not interleaved with another's and
  the files can be processed one after the other. \<open>Rejected\<close> is a promise that
  \<open>Promise.allSettled\<close> records as rejected; \<open>settle\<close> is the outcome of the
  pipeline after its write.
\<close>

datatype settled = Fulfilled | Rejected

definition settle :: "bool \<times> world \<Rightarrow> globals \<Rightarrow> settled \<times> world \<times> globals" where
  "settle written g =
     (case written of (ok, w) \<Rightarrow> (if ok then Fulfilled else Rejected, w, g))"

text \<open>Lines 94 to 100: the tree of a file, parsed from its text with the blank lines marked.\<close>

definition source :: "'c externals \<Rightarrow> string \<Rightarrow> string \<Rightarrow> node" where
  "source ext path file =
     createSourceFile ext path (markBlankLines file) (endsWith path ''x'')"

fun processFile ::
  "'c externals \<Rightarrow> bool \<Rightarrow> 'c option \<Rightarrow> string \<Rightarrow> world \<times> globals
    \<Rightarrow> settled \<times> world \<times> globals" where
  "processFile ext jsx prettierConfig path (w, g) =
     (case readFile path w of
        (None, w1) \<Rightarrow> (Rejected, w1, g)
      | (Some file, w1) \<Rightarrow>
          (case visit jsx (source ext path file)
                  (g\<lparr>hasUpdate := False, currentVisitingFile := path\<rparr>) of
             (result, g3) \<Rightarrow>
               (if \<not> hasUpdate g3 then (Fulfilled, w1, g3)
                else
                  (let printed = restoreBlankLines (printFile ext result)
                   in (case prettierConfig of
                         None \<Rightarrow> settle (writeFile path printed w1) g3
                       | Some c \<Rightarrow>
                           (if truthy ext c then
                              (case prettierFormat ext printed c of
                                 None \<Rightarrow> (Rejected, w1, g3)
                               | Some formatted \<Rightarrow>
                                   settle (writeFile path formatted w1) g3)
                            else settle (writeFile path printed w1) g3))))))"

fun processFiles ::
  "'c externals \<Rightarrow> bool \<Rightarrow> 'c option \<Rightarrow> string list \<Rightarrow> world \<times> globals
    \<Rightarrow> settled list \<times> world \<times> globals" where
  "processFiles ext jsx prettierConfig [] st = ([], st)"
| "processFiles ext jsx prettierConfig (path # paths) st =
     (case processFile ext jsx prettierConfig path st of
        (r, st1) \<Rightarrow>
          (case processFiles ext jsx prettierConfig paths st1 of
             (rs, st2) \<Rightarrow> (r # rs, st2)))"

subsection \<open>The program\<close>

text \<open>
  \<open>main\<close> is the module body, from the result of \<open>parseArgs\<close> on. \<open>process.exit()\<close>
  without a code ends the process with code 0; an exception that reaches the top level
  is \<open>Crashed\<close>. \<open>currentVisitingFile\<close> and \<open>hasUpdate\<close> are declared without a value
  at lines 41 and 42, and assigned before they are read: \<open>main\<close> takes what they hold
  before that as \<open>file0\<close> and \<open>update0\<close>.
\<close>

record args =
  positionals :: "string list"
  jsxFlag :: bool
  prettier :: "string option"

datatype outcome = Exited nat | Crashed | Settled "settled list"

definition loadPrettierConfig ::
  "'c externals \<Rightarrow> string \<Rightarrow> args \<Rightarrow> world \<Rightarrow> ('c option) option \<times> world" where
  "loadPrettierConfig ext cwd a w =
     (case prettier a of
        None \<Rightarrow> (Some None, w)
      | Some p \<Rightarrow>
          if p = [] then (Some None, w)
          else (case readFile (join [cwd, p]) w of
                  (None, w1) \<Rightarrow> (None, w1)
                | (Some text, w1) \<Rightarrow>
                    (case jsonParse ext text of
                       None \<Rightarrow> (None, w1)
                     | Some c \<Rightarrow> (Some (Some c), w1))))"

definition main ::
  "'c externals \<Rightarrow> string \<Rightarrow> args \<Rightarrow> string \<Rightarrow> bool \<Rightarrow> world \<Rightarrow> outcome \<times> world" where
  "main ext cwd a file0 update0 w =
     (if length (positionals a) \<noteq> 1 then
        (Exited 0, consoleLog ''Usage: ts-esm-migrate <folder>'' w)
      else
        (let workingFolder = join [cwd, positionals a ! 0]
         in (case loadPrettierConfig ext cwd a w of
               (None, w1) \<Rightarrow> (Crashed, w1)
             | (Some prettierConfig, w1) \<Rightarrow>
                 (let w2 = consoleLog (''Working on '' @ workingFolder) w1
                  in (case walk workingFolder (listing w2 workingFolder) (trace w2, []) of
                        Inl tr \<Rightarrow> (Crashed, w2\<lparr>trace := tr\<rparr>)
                      | Inr (tr, vs) \<Rightarrow>
                          (let g = \<lparr>visited = set vs, currentVisitingFile = file0,
                                     hasUpdate = update0\<rparr>
                           in (case processFiles ext (jsxFlag a) prettierConfig vs
                                       (w2\<lparr>trace := tr\<rparr>, g) of
                                 (rs, w3, g3) \<Rightarrow> (Settled rs, w3))))))))"

subsection \<open>Notions used in the statements\<close>

text \<open>
  Two module states \<open>agree\<close> when they hold the same File Index and the same current
  file; \<open>mark changed g\<close> is \<open>g\<close> with \<open>hasUpdate\<close> set when \<open>changed\<close> holds.
  A specifier is \<open>unmatched\<close> when none of the four tests of \<open>updateImportPath\<close> holds
  for it.
\<close>

definition agree :: "globals \<Rightarrow> globals \<Rightarrow> bool" where
  "agree g g' \<longleftrightarrow> visited g = visited g' \<and> currentVisitingFile g = currentVisitingFile g'"

definition mark :: "bool \<Rightarrow> globals \<Rightarrow> globals" where
  "mark changed g = (if changed then g\<lparr>hasUpdate := True\<rparr> else g)"

definition unmatched :: "globals \<Rightarrow> string \<Rightarrow> bool" where
  "unmatched g spec \<longleftrightarrow>
     \<not> fileMatch g spec \<and> \<not> tsxMatch g spec \<and> \<not> indexMatch g spec \<and> \<not> indexTsxMatch g spec"

text \<open>
  A \<open>regularSegment\<close> is a name as \<open>readdir\<close> lists it: not empty, not \<open>.\<close> or \<open>..\<close>,
  and without a slash. \<open>segments\<close> are the segments \<open>normalizeString\<close> keeps of an
  absolute path.
\<close>

definition regularSegment :: "string \<Rightarrow> bool" where
  "regularSegment s \<longleftrightarrow> s \<noteq> [] \<and> s \<noteq> ''.'' \<and> s \<noteq> ''..'' \<and> CHR ''/'' \<notin> set s"

definition segments :: "string \<Rightarrow> string list" where
  "segments path = foldl (normalizeStep False) [] (splitSlash path)"

text \<open>
  \<open>transformed\<close> is the tree that \<open>ts.transform\<close> returns at line 103 for a file, and
  \<open>fileAfter\<close> the text a file holds once its pipeline has settled, from the text it
  held before: the same text when no specifier was rewritten, prettier threw or the file
  cannot be written, and the printed (and formatted) tree otherwise. \<open>newEvents\<close> are the events a run has added to
  the trace and \<open>written\<close> the paths of the writes among them.
\<close>

definition transformed :: "bool \<Rightarrow> string set \<Rightarrow> string \<Rightarrow> node \<Rightarrow> node" where
  "transformed jsx index path tree =
     fst (visit jsx tree \<lparr>visited = index, currentVisitingFile = path, hasUpdate = False\<rparr>)"

definition fileAfter ::
  "'c externals \<Rightarrow> bool \<Rightarrow> 'c option \<Rightarrow> string set \<Rightarrow> string set \<Rightarrow> string \<Rightarrow> string
    \<Rightarrow> string" where
  "fileAfter ext jsx prettierConfig index locked path file =
     (let tree = source ext path file;
          result = transformed jsx index path tree;
          printed = restoreBlankLines (printFile ext result)
      in if result = tree \<or> path \<in> locked then file
         else (case prettierConfig of
                 None \<Rightarrow> printed
               | Some c \<Rightarrow>
                   (if truthy ext c then
                      (case prettierFormat ext printed c of
                         None \<Rightarrow> file
                       | Some formatted \<Rightarrow> formatted)
                    else printed)))"

definition newEvents :: "world \<Rightarrow> world \<Rightarrow> event list" where
  "newEvents w w' = drop (length (trace w)) (trace w')"

fun written :: "event list \<Rightarrow> string set" where
  "written [] = {}"
| "written (WriteFile path data # tr) = insert path (written tr)"
| "written (e # tr) = written tr"

subsection \<open>Example inputs\<close>

text \<open>
  Small File Indexes for a folder \<open>/p\<close>, seen from the file \<open>/p/b.ts\<close>. They are the
  concrete inputs at which the theorems below are instantiated.
\<close>

definition gBoth :: globals where
  "gBoth = \<lparr>visited = {''/p/a.ts'', ''/p/a/index.ts'', ''/p/b.ts''},
     currentVisitingFile = ''/p/b.ts'', hasUpdate = False\<rparr>"

definition gIndexOnly :: globals where
  "gIndexOnly = \<lparr>visited = {''/p/a/index.ts'', ''/p/b.ts''},
     currentVisitingFile = ''/p/b.ts'', hasUpdate = False\<rparr>"

definition gTsxOnly :: globals where
  "gTsxOnly = \<lparr>visited = {''/p/a.tsx'', ''/p/b.ts''},
     currentVisitingFile = ''/p/b.ts'', hasUpdate = False\<rparr>"

definition gIndexTsxOnly :: globals where
  "gIndexTsxOnly = \<lparr>visited = {''/p/a/index.tsx'', ''/p/b.ts''},
     currentVisitingFile = ''/p/b.ts'', hasUpdate = False\<rparr>"

definition gJsxTs :: globals where
  "gJsxTs = \<lparr>visited = {''/p/a.tsx'', ''/p/a.jsx.ts'', ''/p/b.ts''},
     currentVisitingFile = ''/p/b.ts'', hasUpdate = False\<rparr>"

definition gMissing :: globals where
  "gMissing = \<lparr>visited = {''/p/a.ts'', ''/p/b.ts''},
     currentVisitingFile = ''/p/b.ts'', hasUpdate = False\<rparr>"

text \<open>
  A stand-in for the external tools, for the concrete runs: its parser reads the whole
  text of a file as the specifier of one import declaration, and its printer writes that
  specifier back.
\<close>

definition toyExternals :: "unit externals" where
  "toyExternals =
     \<lparr>createSourceFile = (\<lambda>fileName text tsx.
          SourceFile [ImportDeclaration [] None (StringLiteral text) None]),
      printFile = (\<lambda>n. case n of
          SourceFile [ImportDeclaration _ _ (StringLiteral text) _] \<Rightarrow> text
        | _ \<Rightarrow> []),
      jsonParse = (\<lambda>text. None),
      truthy = (\<lambda>c. True),
      prettierFormat = (\<lambda>printed c. Some printed)\<rparr>"

text \<open>
  The folder \<open>/p\<close> with \<open>a.ts\<close>, which imports nothing the File Index resolves, and
  \<open>b.ts\<close>, which imports \<open>./a\<close>; a \<open>node_modules\<close> folder beside them.
\<close>

definition toyWorld :: world where
  "toyWorld =
     \<lparr>files = [''/p/a.ts'' \<mapsto> ''lodash'', ''/p/b.ts'' \<mapsto> ''./a'',
               ''/p/node_modules/m.ts'' \<mapsto> ''./m''],
      readOnly = {},
      listing = (\<lambda>path. if path = ''/p'' then
          Some [FileEntry ''a.ts'', DirectoryEntry ''node_modules'' (Some [FileEntry ''m.ts'']),
                FileEntry ''b.ts'', FileEntry ''readme.md'']
        else None),
      trace = []\<rparr>"

definition noArgs :: args where
  "noArgs = \<lparr>positionals = [], jsxFlag = False, prettier = None\<rparr>"

definition twoArgs :: args where
  "twoArgs = \<lparr>positionals = [''p'', ''q''], jsxFlag = False, prettier = None\<rparr>"

definition oneArg :: args where
  "oneArg = \<lparr>positionals = [''p''], jsxFlag = False, prettier = None\<rparr>"

text \<open>
  The folder \<open>/p\<close> with \<open>a.tsx\<close>, \<open>a.jsx.ts\<close> and \<open>b.ts\<close>, which imports
  \<open>./a\<close>, and the arguments \<open>--jsx p\<close>.
\<close>

definition jsxWorld :: world where
  "jsxWorld =
     \<lparr>files = [''/p/a.tsx'' \<mapsto> ''react'', ''/p/a.jsx.ts'' \<mapsto> ''lodash'',
               ''/p/b.ts'' \<mapsto> ''./a''],
      readOnly = {},
      listing = (\<lambda>path. if path = ''/p'' then
          Some [FileEntry ''a.tsx'', FileEntry ''a.jsx.ts'', FileEntry ''b.ts'']
        else None),
      trace = []\<rparr>"

definition jsxArg :: args where
  "jsxArg = \<lparr>positionals = [''p''], jsxFlag = True, prettier = None\<rparr>"

text \<open>A file with the single import \<open>./a\<close>, and two more module states.\<close>

definition importOfA :: node where
  "importOfA = SourceFile [ImportDeclaration [] None (StringLiteral ''./a'') None]"

definition gToy :: globals where
  "gToy = \<lparr>visited = {''/p/a.ts'', ''/p/b.ts''}, currentVisitingFile = [], hasUpdate = False\<rparr>"

definition gOther :: globals where
  "gOther = \<lparr>visited = {''/p/a.ts'', ''/p/a/index.ts'', ''/p/b.ts''},
     currentVisitingFile = ''/p/c.ts'', hasUpdate = True\<rparr>"

section \<open>Properties\<close>

subsection \<open>The resolver on one specifier\<close>

text \<open>
  C2, as amended. A specifier that ends in \<open>.js\<close> is returned as it is and the module
  state is not touched, whatever the File Index holds. (The test of line 123 is for
  \<open>.js\<close> only: a specifier that ends in \<open>.jsx\<close> passes it and is resolved like any
  other.)
\<close>

theorem js_specifier_untouched:
  "endsWith spec ''.js'' \<Longrightarrow>
   updateImportPath jsx (Some (StringLiteral spec)) g = (Some (StringLiteral spec), g)"
  by simp

theorem js_specifier_untouched_witness:
  "endsWith ''./a.js'' ''.js'' \<and>
   updateImportPath False (Some (StringLiteral ''./a.js'')) gBoth =
     (Some (StringLiteral ''./a.js''), gBoth)"
proof -
  have e: "endsWith ''./a.js'' ''.js''" by code_simp
  show ?thesis using e js_specifier_untouched [OF e, of False gBoth] by simp
qed

text \<open>
  C2, as stated, fails for \<open>.jsx\<close>: with \<open>/p/a.jsx.ts\<close> in the File Index, the relative
  specifier \<open>./a.jsx\<close> of \<open>/p/b.ts\<close> is rewritten to \<open>./a.jsx.js\<close>.
\<close>

theorem jsx_specifier_rewritten:
  "startsWith ''./a.jsx'' ''.'' \<and> endsWith ''./a.jsx'' ''.jsx'' \<and>
   updateImportPath False (Some (StringLiteral ''./a.jsx'')) gJsxTs =
     (Some (StringLiteral ''./a.jsx.js''), gJsxTs\<lparr>hasUpdate := True\<rparr>) \<and>
   fst (updateImportPath False (Some (StringLiteral ''./a.jsx'')) gJsxTs) \<noteq>
     Some (StringLiteral ''./a.jsx'')"
  by code_simp

text \<open>
  C4. When the first test that holds is the one for a \<open>.tsx\<close> file, the suffix is
  \<open>.js\<close> with the \<open>jsx\<close> flag off and \<open>.jsx\<close> with the flag on; when it is the one
  for \<open>index.tsx\<close>, the suffix is \<open>/index.js\<close> or \<open>/index.jsx\<close>.
\<close>

theorem jsx_flag:
  assumes "startsWith spec ''.''" and "\<not> endsWith spec ''.js''" and "\<not> fileMatch g spec"
  shows "(tsxMatch g spec \<longrightarrow>
            updateImportPath jsx (Some (StringLiteral spec)) g =
              (Some (StringLiteral (spec @ (if jsx then ''.jsx'' else ''.js''))),
               g\<lparr>hasUpdate := True\<rparr>)) \<and>
         (\<not> tsxMatch g spec \<and> \<not> indexMatch g spec \<and> indexTsxMatch g spec \<longrightarrow>
            updateImportPath jsx (Some (StringLiteral spec)) g =
              (Some (StringLiteral (spec @ (if jsx then ''/index.jsx'' else ''/index.js''))),
               g\<lparr>hasUpdate := True\<rparr>))"
  using assms by simp

theorem jsx_flag_witness:
  "updateImportPath False (Some (StringLiteral ''./a'')) gTsxOnly =
     (Some (StringLiteral ''./a.js''), gTsxOnly\<lparr>hasUpdate := True\<rparr>) \<and>
   updateImportPath True (Some (StringLiteral ''./a'')) gTsxOnly =
     (Some (StringLiteral ''./a.jsx''), gTsxOnly\<lparr>hasUpdate := True\<rparr>) \<and>
   updateImportPath False (Some (StringLiteral ''./a'')) gIndexTsxOnly =
     (Some (StringLiteral ''./a/index.js''), gIndexTsxOnly\<lparr>hasUpdate := True\<rparr>) \<and>
   updateImportPath True (Some (StringLiteral ''./a'')) gIndexTsxOnly =
     (Some (StringLiteral ''./a/index.jsx''), gIndexTsxOnly\<lparr>hasUpdate := True\<rparr>)"
proof -
  have s: "startsWith ''./a'' ''.''" "\<not> endsWith ''./a'' ''.js''" by code_simp+
  have t: "\<not> fileMatch gTsxOnly ''./a''" "tsxMatch gTsxOnly ''./a''" by code_simp+
  have i: "\<not> fileMatch gIndexTsxOnly ''./a''" "\<not> tsxMatch gIndexTsxOnly ''./a''"
    "\<not> indexMatch gIndexTsxOnly ''./a''" "indexTsxMatch gIndexTsxOnly ''./a''" by code_simp+
  show ?thesis
    using jsx_flag [OF s t(1), of False] jsx_flag [OF s t(1), of True]
      jsx_flag [OF s i(1), of False] jsx_flag [OF s i(1), of True] t i
    by simp
qed

text \<open>
  C5. When none of the four tests holds, the specifier is returned as it is and the
  module state is not touched. \<open>updateImportPath\<close> has no failing branch: it returns a
  node for every input.
\<close>

theorem unresolvable_passthrough:
  assumes "\<not> fileMatch g spec" and "\<not> tsxMatch g spec"
    and "\<not> indexMatch g spec" and "\<not> indexTsxMatch g spec"
  shows "updateImportPath jsx (Some (StringLiteral spec)) g = (Some (StringLiteral spec), g)"
  using assms by simp

theorem unresolvable_passthrough_witness:
  "\<not> fileMatch gMissing ''./missing'' \<and> \<not> tsxMatch gMissing ''./missing'' \<and>
   \<not> indexMatch gMissing ''./missing'' \<and> \<not> indexTsxMatch gMissing ''./missing'' \<and>
   updateImportPath False (Some (StringLiteral ''./missing'')) gMissing =
     (Some (StringLiteral ''./missing''), gMissing)"
proof -
  have 1: "\<not> fileMatch gMissing ''./missing''" by code_simp
  have 2: "\<not> tsxMatch gMissing ''./missing''" by code_simp
  have 3: "\<not> indexMatch gMissing ''./missing''" by code_simp
  have 4: "\<not> indexTsxMatch gMissing ''./missing''" by code_simp
  show ?thesis using 1 2 3 4 unresolvable_passthrough [OF 1 2 3 4, of False] by simp
qed

subsection \<open>Positions without a string literal\<close>

text \<open>
  C10. A specifier position that is empty (an export declaration without a \<open>from\<close>
  clause) or holds a node that is not a string literal (a dynamic \<open>import\<close> of a computed
  expression) is returned as it is, and the module state, \<open>hasUpdate\<close> included, is not
  touched: by \<open>updateImportPath\<close>, and so by \<open>visit\<close> on the declaration or the call.
\<close>

theorem absent_or_non_literal_untouched:
  "updateImportPath jsx None g = (None, g) \<and>
   (\<not> isStringLiteral node \<longrightarrow> updateImportPath jsx (Some node) g = (Some node, g)) \<and>
   visit jsx (ExportDeclaration modifiers isTypeOnly exportClause None assertClause) g =
     (ExportDeclaration modifiers isTypeOnly exportClause None assertClause, g) \<and>
   (\<not> isStringLiteral node \<longrightarrow>
      visit jsx (CallExpression ImportKeyword typeArguments (node # rest)) g =
        (CallExpression ImportKeyword typeArguments (node # rest), g))"
  by (cases node) simp_all

theorem absent_or_non_literal_untouched_witness:
  "\<not> isStringLiteral (OtherNode ''Identifier'' []) \<and>
   updateImportPath False (Some (OtherNode ''Identifier'' [])) gBoth =
     (Some (OtherNode ''Identifier'' []), gBoth) \<and>
   visit False (CallExpression ImportKeyword [] [OtherNode ''Identifier'' []]) gBoth =
     (CallExpression ImportKeyword [] [OtherNode ''Identifier'' []], gBoth)"
  using absent_or_non_literal_untouched
    [of False gBoth "OtherNode ''Identifier'' []" "[]" False None None "[]" "[]"]
  by simp

subsection \<open>The sentinel comment\<close>

lemma replaceAll_Nil: "replaceAll pat rep [] = []"
  by (simp add: replaceAll.simps)

lemma replaceAll_match:
  "pat \<noteq> [] \<Longrightarrow> prefix pat s \<Longrightarrow>
   replaceAll pat rep s = rep @ replaceAll pat rep (drop (length pat) s)"
  by (subst replaceAll.simps) auto

lemma replaceAll_skip:
  "\<not> prefix pat (c # cs) \<Longrightarrow> replaceAll pat rep (c # cs) = c # replaceAll pat rep cs"
  by (subst replaceAll.simps) auto

lemma markBlankLines_Nil: "markBlankLines [] = []"
  by (simp add: markBlankLines_def replaceAll_Nil)

lemma markBlankLines_blank:
  "markBlankLines (newline # newline # t) = newline # sentinel @ markBlankLines t"
  by (simp add: markBlankLines_def replaceAll_match)

lemma markBlankLines_other:
  "\<not> prefix [newline, newline] (c # t) \<Longrightarrow> markBlankLines (c # t) = c # markBlankLines t"
  by (simp add: markBlankLines_def replaceAll_skip)

text \<open>
  A text without a newline that starts the marked text starts the unmarked text too:
  the two agree up to the first blank line.
\<close>

lemma prefix_markBlankLines:
  "newline \<notin> set u \<Longrightarrow> prefix u (markBlankLines t) \<Longrightarrow> prefix u t"
proof (induction u arbitrary: t)
  case Nil
  then show ?case by simp
next
  case (Cons x u)
  show ?case
  proof (cases t)
    case Nil
    with Cons.prems show ?thesis by (simp add: markBlankLines_Nil)
  next
    case (Cons c t')
    show ?thesis
    proof (cases "prefix [newline, newline] (c # t')")
      case True
      then obtain t'' where "c # t' = newline # newline # t''"
        by (auto simp: prefix_def)
      with Cons.prems \<open>t = c # t'\<close> show ?thesis
        by (simp add: markBlankLines_blank)
    next
      case False
      with Cons.prems Cons.IH [of t'] \<open>t = c # t'\<close> show ?thesis
        by (simp add: markBlankLines_other)
    qed
  qed
qed

lemma sentinel_no_newline: "newline \<notin> set sentinel"
  by (simp add: sentinel_def newline_def)

lemma sentinel_not_Nil: "sentinel \<noteq> []"
  by (simp add: sentinel_def)

lemma sentinel_not_prefix_newline: "\<not> prefix sentinel (newline # s)"
  by (simp add: sentinel_def newline_def)

lemma restoreBlankLines_sentinel:
  "restoreBlankLines (sentinel @ s) = newline # restoreBlankLines s"
  by (simp add: restoreBlankLines_def replaceAll_match sentinel_not_Nil)

lemma restoreBlankLines_other:
  "\<not> prefix sentinel (c # s) \<Longrightarrow> restoreBlankLines (c # s) = c # restoreBlankLines s"
  by (simp add: restoreBlankLines_def replaceAll_skip)

text \<open>
  C6. For a text in which the sentinel comment does not occur, replacing the sentinel
  comments by newlines in the marked text gives the text back.
\<close>

theorem sentinel_round_trip:
  "\<not> sublist sentinel src \<Longrightarrow> restoreBlankLines (markBlankLines src) = src"
proof (induction src rule: length_induct)
  case (1 t)
  show ?case
  proof (cases t)
    case Nil
    then show ?thesis
      by (simp add: markBlankLines_Nil restoreBlankLines_def replaceAll_Nil)
  next
    case (Cons c t')
    show ?thesis
    proof (cases "prefix [newline, newline] t")
      case True
      then obtain t'' where t: "t = newline # newline # t''"
        by (auto simp: prefix_def)
      from "1.prems" have "\<not> sublist sentinel t''"
        unfolding t by (meson sublist_Cons_right)
      with "1.IH" have "restoreBlankLines (markBlankLines t'') = t''"
        by (simp add: t)
      then show ?thesis
        unfolding t
        by (simp add: markBlankLines_blank restoreBlankLines_other
            sentinel_not_prefix_newline restoreBlankLines_sentinel)
    next
      case False
      have "\<not> prefix sentinel (markBlankLines t)"
        using prefix_markBlankLines [OF sentinel_no_newline] "1.prems"
        by (meson prefix_imp_sublist)
      moreover from "1.prems" have "\<not> sublist sentinel t'"
        unfolding Cons by (meson sublist_Cons_right)
      with "1.IH" have "restoreBlankLines (markBlankLines t') = t'"
        by (simp add: Cons)
      ultimately show ?thesis
        using False unfolding Cons
        by (simp add: markBlankLines_other restoreBlankLines_other)
    qed
  qed
qed

theorem sentinel_round_trip_witness:
  "\<not> sublist sentinel [CHR ''a'', newline, newline, newline, CHR ''b'', newline, newline] \<and>
   markBlankLines [CHR ''a'', newline, newline, newline, CHR ''b'', newline, newline] =
     [CHR ''a'', newline] @ sentinel @ [newline, CHR ''b'', newline] @ sentinel \<and>
   restoreBlankLines
     (markBlankLines [CHR ''a'', newline, newline, newline, CHR ''b'', newline, newline]) =
     [CHR ''a'', newline, newline, newline, CHR ''b'', newline, newline]"
proof -
  have n: "\<not> sublist sentinel [CHR ''a'', newline, newline, newline, CHR ''b'', newline, newline]"
    by code_simp
  have m: "markBlankLines [CHR ''a'', newline, newline, newline, CHR ''b'', newline, newline] =
     [CHR ''a'', newline] @ sentinel @ [newline, CHR ''b'', newline] @ sentinel"
    by code_simp
  show ?thesis using n m sentinel_round_trip [OF n] by simp
qed

subsection \<open>The program\<close>

text \<open>
  C9. When the number of positional arguments is not one, the program prints the usage
  line and exits with code 0. Nothing else is in the trace: no directory and no file has
  been read, and no file has been written.
\<close>

theorem usage_error:
  "length (positionals a) \<noteq> 1 \<Longrightarrow>
   main ext cwd a file0 update0 w =
     (Exited 0, w\<lparr>trace := trace w @ [ConsoleLog ''Usage: ts-esm-migrate <folder>'']\<rparr>)"
  by (simp add: main_def consoleLog_def)

theorem usage_error_witness:
  "length (positionals noArgs) \<noteq> 1 \<and> length (positionals twoArgs) \<noteq> 1 \<and>
   main toyExternals ''/'' noArgs [] False toyWorld =
     (Exited 0, toyWorld\<lparr>trace := [ConsoleLog ''Usage: ts-esm-migrate <folder>'']\<rparr>) \<and>
   main toyExternals ''/'' twoArgs [] False toyWorld =
     (Exited 0, toyWorld\<lparr>trace := [ConsoleLog ''Usage: ts-esm-migrate <folder>'']\<rparr>)"
proof -
  have n: "length (positionals noArgs) \<noteq> 1" by (simp add: noArgs_def)
  have t: "length (positionals twoArgs) \<noteq> 1" by (simp add: twoArgs_def)
  have e: "trace toyWorld = []" by (simp add: toyWorld_def)
  show ?thesis
    using n t usage_error [OF n, of toyExternals "''/''" "[]" False toyWorld]
      usage_error [OF t, of toyExternals "''/''" "[]" False toyWorld]
    by (simp add: e)
qed

text \<open>
  A complete run on the folder \<open>/p\<close>: the walk skips \<open>node_modules\<close> and
  \<open>readme.md\<close>, \<open>a.ts\<close> is read and left alone, \<open>b.ts\<close> is rewritten.
\<close>

lemma main_example:
  "fst (main toyExternals ''/'' oneArg [] False toyWorld) = Settled [Fulfilled, Fulfilled] \<and>
   trace (snd (main toyExternals ''/'' oneArg [] False toyWorld)) =
     [ConsoleLog ''Working on /p'', Readdir ''/p'', ReadFile ''/p/a.ts'', ReadFile ''/p/b.ts'',
      WriteFile ''/p/b.ts'' ''./a.js''] \<and>
   files (snd (main toyExternals ''/'' oneArg [] False toyWorld)) ''/p/a.ts'' = Some ''lodash'' \<and>
   files (snd (main toyExternals ''/'' oneArg [] False toyWorld)) ''/p/b.ts'' = Some ''./a.js'' \<and>
   files (snd (main toyExternals ''/'' oneArg [] False toyWorld)) ''/p/node_modules/m.ts'' =
     Some ''./m''"
  by code_simp

text \<open>The walk adds no path twice: the files of a run are distinct.\<close>

lemma addVisited_distinct: "distinct vs \<Longrightarrow> distinct (addVisited p vs)"
  by (simp add: addVisited_def)

lemma walk_distinct:
  "distinct (snd st) \<Longrightarrow> walk folder l st = Inr st' \<Longrightarrow> distinct (snd st')"
  "distinct (snd st) \<Longrightarrow> walkItems folder items st = Inr st' \<Longrightarrow> distinct (snd st')"
proof (induction folder l st and folder items st arbitrary: st' and st'
    rule: walk_walkItems.induct)
  case (1 folder tr vs)
  then show ?case by simp
next
  case (2 folder items tr vs)
  then show ?case by simp
next
  case (3 folder st)
  then show ?case by simp
next
  case (4 folder name rest tr vs)
  then show ?case by (simp add: addVisited_distinct split: if_splits)
next
  case (5 folder name sub rest st)
  show ?case
  proof (cases "name = ''node_modules''")
    case True
    with "5.prems" "5.IH"(3) show ?thesis by simp
  next
    case False
    with "5.prems"(2) obtain st1 where
      w: "walk (join [folder, name]) sub st = Inr st1" and
      r: "walkItems folder rest st1 = Inr st'"
      by (auto split: sum.splits)
    from "5.IH"(1) False "5.prems"(1) w have "distinct (snd st1)"
      by blast
    with "5.IH"(2) False w r show ?thesis
      by blast
  qed
next
  case (6 folder name rest st)
  then show ?case by simp
qed

subsection \<open>Paths\<close>

text \<open>
  What \<open>join\<close> returns for the paths of the program: the path of a file the walk
  yields, the resolution of a specifier from such a file, and the path of an index file
  under a resolution.
\<close>

lemma splitSlash_not_Nil: "splitSlash s \<noteq> []"
  by (induction s) (auto split: list.splits)

lemma splitSlash_append:
  "splitSlash (a @ CHR ''/'' # b) = splitSlash a @ splitSlash b"
proof (induction a)
  case Nil
  show ?case by simp
next
  case (Cons c a)
  then show ?case
    using splitSlash_not_Nil [of a] by (cases "splitSlash a") auto
qed

lemma splitSlash_no_slash: "CHR ''/'' \<notin> set s \<Longrightarrow> splitSlash s = [s]"
  by (induction s) auto

lemma joinSlash_snoc:
  "segs \<noteq> [] \<Longrightarrow> joinSlash (segs @ [s]) = joinSlash segs @ CHR ''/'' # s"
  by (induction segs rule: joinSlash.induct) auto

lemma splitSlash_joinSlash:
  "segs \<noteq> [] \<Longrightarrow> \<forall>s\<in>set segs. CHR ''/'' \<notin> set s \<Longrightarrow> splitSlash (joinSlash segs) = segs"
proof (induction segs rule: joinSlash.induct)
  case 1
  then show ?case by simp
next
  case (2 s)
  then show ?case by (simp add: splitSlash_no_slash)
next
  case (3 s t ss)
  then show ?case
    by (simp add: splitSlash_append splitSlash_no_slash)
qed

lemma foldl_normalizeStep_regular:
  "\<forall>s\<in>set segs. regularSegment s \<Longrightarrow> foldl (normalizeStep a) res segs = res @ segs"
  by (induction segs arbitrary: res) (auto simp: normalizeStep_def regularSegment_def)

lemma splitSlash_slash_free: "\<forall>seg\<in>set (splitSlash s). CHR ''/'' \<notin> set seg"
  by (induction s) (auto split: list.splits)

lemma normalizeStep_regular:
  "\<forall>s\<in>set res. regularSegment s \<Longrightarrow> CHR ''/'' \<notin> set seg \<Longrightarrow>
   \<forall>s\<in>set (normalizeStep False res seg). regularSegment s"
  by (auto simp: normalizeStep_def regularSegment_def dest: in_set_butlastD)

lemma foldl_normalizeStep_all_regular:
  "\<forall>s\<in>set res. regularSegment s \<Longrightarrow> \<forall>s\<in>set segs. CHR ''/'' \<notin> set s \<Longrightarrow>
   \<forall>s\<in>set (foldl (normalizeStep False) res segs). regularSegment s"
proof (induction segs arbitrary: res)
  case Nil
  then show ?case by simp
next
  case (Cons seg segs)
  from Cons.prems have "\<forall>s\<in>set (normalizeStep False res seg). regularSegment s"
    using normalizeStep_regular [of res seg] by simp
  with Cons show ?case by simp
qed

lemma joinSlash_eq_Nil: "\<forall>s\<in>set segs. s \<noteq> [] \<Longrightarrow> joinSlash segs = [] \<longleftrightarrow> segs = []"
  by (induction segs rule: joinSlash.induct) auto

lemma segments_regular: "\<forall>s\<in>set (segments path). regularSegment s"
  unfolding segments_def
  by (rule foldl_normalizeStep_all_regular) (simp_all add: splitSlash_slash_free)

lemma normalize_absolute:
  assumes "path \<noteq> []" "hd path = CHR ''/''"
  shows "normalize path =
    (if segments path = [] then ''/''
     else ''/'' @ joinSlash (segments path) @ (if last path = CHR ''/'' then ''/'' else []))"
proof -
  have "joinSlash (segments path) = [] \<longleftrightarrow> segments path = []"
    using segments_regular [of path] by (intro joinSlash_eq_Nil) (auto simp: regularSegment_def)
  then show ?thesis
    using assms by (simp add: normalize_def normalizeString_def segments_def Let_def)
qed

lemma segments_append:
  "segments (a @ CHR ''/'' # b) = foldl (normalizeStep False) (segments a) (splitSlash b)"
  by (simp add: segments_def splitSlash_append)

lemma segments_absolute:
  assumes "\<forall>s\<in>set D. regularSegment s" "D \<noteq> []"
  shows "segments (CHR ''/'' # joinSlash D) = D"
proof -
  have "splitSlash (joinSlash D) = D"
    using assms by (intro splitSlash_joinSlash) (auto simp: regularSegment_def)
  then show ?thesis
    using assms(1) by (simp add: segments_def normalizeStep_def foldl_normalizeStep_regular)
qed

lemma regularSegment_last: "regularSegment s \<Longrightarrow> last s \<noteq> CHR ''/''"
  by (metis last_in_set regularSegment_def)

lemma join_dir_name:
  assumes "dir \<noteq> []" "hd dir = CHR ''/''" "regularSegment name"
  shows "join [dir, name] = CHR ''/'' # joinSlash (segments dir @ [name])"
proof -
  let ?path = "dir @ CHR ''/'' # name"
  have name: "name \<noteq> []" "CHR ''/'' \<notin> set name"
    using assms(3) by (simp_all add: regularSegment_def)
  have "segments ?path = segments dir @ [name]"
    using assms(3) name
    by (simp add: segments_append splitSlash_no_slash normalizeStep_def regularSegment_def)
  moreover have "last ?path \<noteq> CHR ''/''"
    using regularSegment_last [OF assms(3)] name by simp
  moreover have "hd ?path = CHR ''/''" "?path \<noteq> []"
    using assms by simp_all
  ultimately have "normalize ?path = CHR ''/'' # joinSlash (segments dir @ [name])"
    by (simp add: normalize_absolute)
  then show ?thesis
    using assms(1) name by (simp add: join_def)
qed

text \<open>The directory part of a resolution, and the resolution itself, for a file the walk yields.\<close>

lemma resolution_absolute:
  assumes D: "\<forall>s\<in>set D. regularSegment s" and name: "regularSegment name"
    and spec: "spec \<noteq> []"
  shows "join [CHR ''/'' # joinSlash (D @ [name]), ''../'', spec] =
    (let R = foldl (normalizeStep False) D (splitSlash spec)
     in if R = [] then ''/''
        else ''/'' @ joinSlash R @ (if last spec = CHR ''/'' then ''/'' else []))"
proof -
  let ?F = "CHR ''/'' # joinSlash (D @ [name])"
  let ?path = "?F @ CHR ''/'' # (''..'' @ CHR ''/'' # ([] @ CHR ''/'' # spec))"
  have reg: "\<forall>s\<in>set (D @ [name]). regularSegment s"
    using D name by simp
  have F: "segments ?F = D @ [name]"
    using segments_absolute [OF reg] by simp
  have "name \<noteq> ''..''"
    using name by (simp add: regularSegment_def)
  then have "segments ?path = foldl (normalizeStep False) D (splitSlash spec)"
    unfolding segments_append F
    by (simp add: splitSlash_append normalizeStep_def)
  moreover have "last ?path = last spec"
    using spec by simp
  moreover have "join [?F, ''../'', spec] = normalize ?path"
    using spec by (simp add: join_def)
  ultimately show ?thesis
    by (simp add: normalize_absolute Let_def)
qed

lemma resolution_absolute_empty:
  assumes D: "\<forall>s\<in>set D. regularSegment s" and name: "regularSegment name"
  shows "join [CHR ''/'' # joinSlash (D @ [name]), ''../'', []] =
    (if D = [] then ''/'' else ''/'' @ joinSlash D @ ''/'')"
proof -
  let ?F = "CHR ''/'' # joinSlash (D @ [name])"
  let ?path = "?F @ CHR ''/'' # (''..'' @ CHR ''/'' # [])"
  have reg: "\<forall>s\<in>set (D @ [name]). regularSegment s"
    using D name by simp
  have F: "segments ?F = D @ [name]"
    using segments_absolute [OF reg] by simp
  have "name \<noteq> ''..''"
    using name by (simp add: regularSegment_def)
  then have "segments ?path = D"
    unfolding segments_append F
    by (simp add: splitSlash_append normalizeStep_def)
  moreover have "join [?F, ''../'', []] = normalize ?path"
    by (simp add: join_def)
  ultimately show ?thesis
    by (simp add: normalize_absolute)
qed

lemma resolution_same_directory:
  assumes "dir \<noteq> []" "hd dir = CHR ''/''" "regularSegment name1" "regularSegment name2"
  shows "join [join [dir, name1], ''../'', spec] = join [join [dir, name2], ''../'', spec]"
proof (cases "spec = []")
  case True
  then show ?thesis
    unfolding join_dir_name [OF assms(1,2,3)] join_dir_name [OF assms(1,2,4)]
    by (simp only: resolution_absolute_empty [OF segments_regular assms(3)]
        resolution_absolute_empty [OF segments_regular assms(4)])
next
  case False
  then show ?thesis
    unfolding join_dir_name [OF assms(1,2,3)] join_dir_name [OF assms(1,2,4)]
    by (simp only: resolution_absolute [OF segments_regular assms(3) False]
        resolution_absolute [OF segments_regular assms(4) False])
qed

lemma join_index:
  assumes D: "\<forall>s\<in>set D. regularSegment s" and name: "regularSegment name"
    and spec: "spec \<noteq> []" and x: "regularSegment x"
    and r: "r = join [CHR ''/'' # joinSlash (D @ [name]), ''../'', spec]"
    and slash: "\<not> endsWith r ''/''"
  shows "join [r, x] = r @ ''/'' @ x"
proof -
  let ?R = "foldl (normalizeStep False) D (splitSlash spec)"
  have R: "\<forall>s\<in>set ?R. regularSegment s"
    using D by (intro foldl_normalizeStep_all_regular) (simp_all add: splitSlash_slash_free)
  have r': "r = (if ?R = [] then ''/''
        else ''/'' @ joinSlash ?R @ (if last spec = CHR ''/'' then ''/'' else []))"
    unfolding r resolution_absolute [OF D name spec] by (simp add: Let_def)
  have nonempty: "?R \<noteq> []" and r'': "r = CHR ''/'' # joinSlash ?R"
    using slash r' by (auto simp: endsWith_def suffix_def split: if_splits)
  have xn: "x \<noteq> []" "CHR ''/'' \<notin> set x"
    using x by (simp_all add: regularSegment_def)
  let ?path = "r @ CHR ''/'' # x"
  have "segments ?path = ?R @ [x]"
    unfolding segments_append r'' segments_absolute [OF R nonempty]
    using x xn by (simp add: splitSlash_no_slash normalizeStep_def regularSegment_def)
  moreover have "last ?path \<noteq> CHR ''/''"
    using regularSegment_last [OF x] xn by simp
  moreover have "hd ?path = CHR ''/''" "?path \<noteq> []"
    by (simp_all add: r'')
  ultimately have "normalize ?path = CHR ''/'' # joinSlash (?R @ [x])"
    by (simp add: normalize_absolute)
  moreover have "join [r, x] = normalize ?path"
    using xn by (simp add: join_def r'')
  ultimately show ?thesis
    using nonempty by (simp add: joinSlash_snoc r'')
qed

lemma regular_index_names:
  "regularSegment ''index.ts''" "regularSegment ''index.d.ts''" "regularSegment ''index.tsx''"
  by (simp_all add: regularSegment_def)

lemma index_forms:
  assumes "dir \<noteq> []" "hd dir = CHR ''/''" "regularSegment name"
    and "currentVisitingFile g = join [dir, name]"
    and "spec \<noteq> []" "\<not> endsWith (resolution g spec) ''/''" "regularSegment x"
  shows "join [resolution g spec, x] = resolution g spec @ ''/'' @ x"
proof -
  have r: "resolution g spec =
      join [CHR ''/'' # joinSlash (segments dir @ [name]), ''../'', spec]"
    by (simp add: resolution_def assms(4) join_dir_name [OF assms(1,2,3)])
  show ?thesis
    by (rule join_index [OF segments_regular assms(3,5,7) r assms(6)])
qed

text \<open>
  A specifier that ends in \<open>.jsx\<close> has a resolution that ends in \<open>.jsx\<close>, so it
  passes none of the four tests when no path of the File Index contains \<open>.jsx.\<close> or
  \<open>.jsx/\<close>.
\<close>

lemma splitSlash_append_segment:
  "CHR ''/'' \<notin> set b \<Longrightarrow>
   splitSlash (a @ b) = butlast (splitSlash a) @ [last (splitSlash a) @ b]"
proof (induction a)
  case Nil
  then show ?case by (simp add: splitSlash_no_slash)
next
  case (Cons c a)
  obtain s ss where S: "splitSlash a = s # ss"
    using splitSlash_not_Nil [of a] by (cases "splitSlash a") auto
  from Cons S show ?case
    by (cases "ss = []") auto
qed

lemma foldl_normalizeStep_snoc:
  "regularSegment seg \<Longrightarrow>
   foldl (normalizeStep a) res (segs @ [seg]) = foldl (normalizeStep a) res segs @ [seg]"
  by (simp add: normalizeStep_def regularSegment_def)

lemma suffix_joinSlash_snoc: "suffix suf seg \<Longrightarrow> suffix suf (joinSlash (segs @ [seg]))"
  by (cases "segs = []") (auto simp: joinSlash_snoc suffix_def)

lemma resolution_keeps_jsx:
  assumes "dir \<noteq> []" "hd dir = CHR ''/''" "regularSegment name"
    and "currentVisitingFile g = join [dir, name]" and "endsWith spec ''.jsx''"
  shows "endsWith (resolution g spec) ''.jsx''"
proof -
  from assms(5) obtain s0 where spec: "spec = s0 @ ''.jsx''"
    by (auto simp: endsWith_def suffix_def)
  let ?seg = "last (splitSlash s0) @ ''.jsx''"
  have split: "splitSlash spec = butlast (splitSlash s0) @ [?seg]"
    unfolding spec by (rule splitSlash_append_segment) simp
  have "CHR ''/'' \<notin> set (last (splitSlash s0))"
    using splitSlash_slash_free [of s0] splitSlash_not_Nil [of s0] last_in_set by blast
  then have seg: "regularSegment ?seg"
    by (auto simp: regularSegment_def)
  let ?R0 = "foldl (normalizeStep False) (segments dir) (butlast (splitSlash s0))"
  have R: "foldl (normalizeStep False) (segments dir) (splitSlash spec) = ?R0 @ [?seg]"
    unfolding split by (rule foldl_normalizeStep_snoc [OF seg])
  have "spec \<noteq> []" "last spec \<noteq> CHR ''/''"
    by (simp_all add: spec)
  then have "resolution g spec = CHR ''/'' # joinSlash (?R0 @ [?seg])"
    unfolding resolution_def assms(4) join_dir_name [OF assms(1,2,3)]
    by (simp add: resolution_absolute [OF segments_regular assms(3)] R Let_def)
  moreover have "suffix ''.jsx'' (joinSlash (?R0 @ [?seg]))"
    by (rule suffix_joinSlash_snoc) (simp add: suffix_def)
  ultimately show ?thesis
    by (simp add: endsWith_def suffix_Cons)
qed

lemma jsx_specifiers_unmatched:
  assumes "dir \<noteq> []" "hd dir = CHR ''/''" "regularSegment name"
    and "currentVisitingFile g = join [dir, name]"
    and index: "\<forall>p\<in>visited g. \<not> sublist ''.jsx.'' p \<and> \<not> sublist ''.jsx/'' p"
    and "endsWith spec ''.jsx''"
  shows "unmatched g spec"
proof -
  let ?r = "resolution g spec"
  from resolution_keeps_jsx [OF assms(1-4,6)] obtain r0 where r: "?r = r0 @ ''.jsx''"
    by (auto simp: endsWith_def suffix_def)
  have dot: "sublist ''.jsx.'' (?r @ CHR ''.'' # t)" for t
    unfolding r by (metis append.assoc append_Cons append_Nil sublist_appendI)
  have slash: "sublist ''.jsx/'' (?r @ CHR ''/'' # t)" for t
    unfolding r by (metis append.assoc append_Cons append_Nil sublist_appendI)
  have "spec \<noteq> []"
    using assms(6) by (auto simp: endsWith_def)
  moreover have "\<not> endsWith ?r ''/''"
    unfolding r by (simp add: endsWith_def suffix_def)
  ultimately have j: "join [?r, x] = ?r @ ''/'' @ x" if "regularSegment x" for x
    using index_forms [OF assms(1-4)] that by blast
  have "?r @ ''.ts'' \<notin> visited g" "?r @ ''.d.ts'' \<notin> visited g" "?r @ ''.tsx'' \<notin> visited g"
    using index dot by auto
  moreover have "?r @ ''/index.ts'' \<notin> visited g" "?r @ ''/index.d.ts'' \<notin> visited g"
    "?r @ ''/index.tsx'' \<notin> visited g"
    using index slash by auto
  ultimately show ?thesis
    by (simp add: unmatched_def fileMatch_def tsxMatch_def indexMatch_def indexTsxMatch_def j
        regular_index_names)
qed

subsection \<open>The visitor and the module state\<close>

text \<open>
  The visitor returns the same tree from any two module states that agree, and sets
  \<open>hasUpdate\<close> exactly when the tree it returns differs from the one it was given.
\<close>

lemma agree_refl: "agree g g"
  by (simp add: agree_def)

lemma agree_mark: "agree g g2 \<Longrightarrow> agree (mark b g) (mark c g2)"
  by (simp add: agree_def mark_def)

lemma mark_False: "mark False g = g"
  by (simp add: mark_def)

lemma agree_matches:
  assumes "agree g g2"
  shows "fileMatch g2 spec = fileMatch g spec" "tsxMatch g2 spec = tsxMatch g spec"
    "indexMatch g2 spec = indexMatch g spec" "indexTsxMatch g2 spec = indexTsxMatch g spec"
  using assms
  by (simp_all add: agree_def fileMatch_def tsxMatch_def indexMatch_def indexTsxMatch_def
      resolution_def)

lemma updateImportPathExpr_agree:
  assumes "agree g g2"
  shows "updateImportPathExpr jsx n g2 =
    (fst (updateImportPathExpr jsx n g), mark (fst (updateImportPathExpr jsx n g) \<noteq> n) g2)"
  by (cases n) (simp_all add: agree_matches [OF assms] mark_def)

lemma updateImportPath_agree:
  assumes "agree g g2"
  shows "updateImportPath jsx n g2 =
    (fst (updateImportPath jsx n g), mark (fst (updateImportPath jsx n g) \<noteq> n) g2)"
proof (cases n)
  case None
  then show ?thesis by (simp add: mark_def)
next
  case (Some m)
  then show ?thesis
    using updateImportPathExpr_agree [OF assms, of jsx m]
      updateImportPathExpr_agree [OF agree_refl, of jsx m g]
    by (simp add: split_beta)
qed

lemma visit_call_import:
  "visit jsx (CallExpression ImportKeyword typeArguments (a # rest)) g =
     (case updateImportPathExpr jsx a g of
        (a', g') \<Rightarrow> (CallExpression ImportKeyword typeArguments (a' # rest), g'))"
  by simp

lemma visit_call_other:
  "\<not> (expression = ImportKeyword \<and> arguments \<noteq> []) \<Longrightarrow>
   visit jsx (CallExpression expression typeArguments arguments) g =
     (case visit jsx expression g of (expression', g1) \<Rightarrow>
      case visitNodes jsx typeArguments g1 of (typeArguments', g2) \<Rightarrow>
      case visitNodes jsx arguments g2 of (arguments', g3) \<Rightarrow>
        (CallExpression expression' typeArguments' arguments', g3))"
  by auto

lemma visit_import_type_literal:
  "visit jsx (ImportTypeNode (LiteralTypeNode (StringLiteral spec)) assertions qualifier
      typeArguments isTypeOf) g =
     (case updateImportPathExpr jsx (StringLiteral spec) g of
        (literal', g') \<Rightarrow>
          (ImportTypeNode (LiteralTypeNode literal') assertions qualifier typeArguments
             isTypeOf, g'))"
  by simp

lemma visit_import_type_other:
  "\<not> (isLiteralTypeNode argument \<and> isStringLiteral (literal argument)) \<Longrightarrow>
   visit jsx (ImportTypeNode argument assertions qualifier typeArguments isTypeOf) g =
     (case visit jsx argument g of (argument', g1) \<Rightarrow>
      case visitOption jsx assertions g1 of (assertions', g2) \<Rightarrow>
      case visitOption jsx qualifier g2 of (qualifier', g3) \<Rightarrow>
      case visitNodes jsx typeArguments g3 of (typeArguments', g4) \<Rightarrow>
        (ImportTypeNode argument' assertions' qualifier' typeArguments' isTypeOf, g4))"
  by auto

lemma literal_import_cases:
  "isLiteralTypeNode argument \<and> isStringLiteral (literal argument) \<Longrightarrow>
   \<exists>spec. argument = LiteralTypeNode (StringLiteral spec)"
  by (cases argument; cases "literal argument") auto

declare visit.simps(4,5) [simp del]

lemma visit_agree:
  "agree g g2 \<Longrightarrow>
     visit jsx n g2 = (fst (visit jsx n g), mark (fst (visit jsx n g) \<noteq> n) g2)"
  "agree g g2 \<Longrightarrow>
     visitNodes jsx ns g2 =
       (fst (visitNodes jsx ns g), mark (fst (visitNodes jsx ns g) \<noteq> ns) g2)"
  "agree g g2 \<Longrightarrow>
     visitOption jsx no g2 =
       (fst (visitOption jsx no g), mark (fst (visitOption jsx no g) \<noteq> no) g2)"
proof (induction jsx n g and jsx ns g and jsx no g arbitrary: g2 and g2 and g2
    rule: visit_visitNodes_visitOption.induct)
  case (1 jsx statements g)
  from "1.IH" [OF "1.prems"] show ?case
    by (simp add: split_beta)
next
  case (2 jsx modifiers importClause moduleSpecifier assertClause g)
  from updateImportPathExpr_agree [OF "2.prems", of jsx moduleSpecifier] show ?case
    by (simp add: split_beta)
next
  case (3 jsx modifiers isTypeOnly exportClause moduleSpecifier assertClause g)
  from updateImportPath_agree [OF "3.prems", of jsx moduleSpecifier] show ?case
    by (simp add: split_beta)
next
  case (4 jsx expression typeArguments arguments g)
  show ?case
  proof (cases "expression = ImportKeyword \<and> arguments \<noteq> []")
    case True
    then obtain a rest where args: "arguments = a # rest"
      by (cases arguments) auto
    from updateImportPathExpr_agree [OF "4.prems", of jsx a] True show ?thesis
      by (simp add: args visit_call_import split_beta)
  next
    case False
    let ?e = "fst (visit jsx expression g)"
    let ?g1 = "snd (visit jsx expression g)"
    let ?t = "fst (visitNodes jsx typeArguments ?g1)"
    let ?g2 = "snd (visitNodes jsx typeArguments ?g1)"
    let ?a = "fst (visitNodes jsx arguments ?g2)"
    have e: "visit jsx expression h = (?e, mark (?e \<noteq> expression) h)" if "agree g h" for h
      using "4.IH"(1) [OF False that] .
    have "?g1 = mark (?e \<noteq> expression) g"
      using e [OF agree_refl] by (metis snd_conv)
    then have g1: "agree ?g1 (mark (?e \<noteq> expression) h)" if "agree g h" for h
      using agree_mark [OF that] by metis
    have t: "visitNodes jsx typeArguments h = (?t, mark (?t \<noteq> typeArguments) h)"
      if "agree ?g1 h" for h
      using "4.IH"(2) [OF False _ that, of ?e] by simp
    have "?g2 = mark (?t \<noteq> typeArguments) ?g1"
      using t [OF agree_refl] by (metis snd_conv)
    then have g2: "agree ?g2 (mark (?t \<noteq> typeArguments) h)" if "agree ?g1 h" for h
      using agree_mark [OF that] by metis
    have a: "visitNodes jsx arguments h = (?a, mark (?a \<noteq> arguments) h)"
      if "agree ?g2 h" for h
      using "4.IH"(3) [OF False _ _ that, of ?e ?g1 ?t] by simp
    have "visit jsx (CallExpression expression typeArguments arguments) g2 =
        (CallExpression ?e ?t ?a,
         mark (?a \<noteq> arguments) (mark (?t \<noteq> typeArguments) (mark (?e \<noteq> expression) g2)))"
      using e [OF "4.prems"] t [OF g1 [OF "4.prems"]] a [OF g2 [OF g1 [OF "4.prems"]]]
      by (simp add: visit_call_other [OF False])
    moreover have "fst (visit jsx (CallExpression expression typeArguments arguments) g) =
        CallExpression ?e ?t ?a"
      by (simp add: visit_call_other [OF False] split_beta)
    ultimately show ?thesis
      by (auto simp: mark_def)
  qed
next
  case (5 jsx argument assertions qualifier typeArguments isTypeOf g)
  show ?case
  proof (cases "isLiteralTypeNode argument \<and> isStringLiteral (literal argument)")
    case True
    then obtain spec where arg: "argument = LiteralTypeNode (StringLiteral spec)"
      using literal_import_cases by blast
    from updateImportPathExpr_agree [OF "5.prems", of jsx "StringLiteral spec"] show ?thesis
      unfolding arg visit_import_type_literal by (simp add: split_beta)
  next
    case False
    let ?a = "fst (visit jsx argument g)"
    let ?g1 = "snd (visit jsx argument g)"
    let ?s = "fst (visitOption jsx assertions ?g1)"
    let ?g2 = "snd (visitOption jsx assertions ?g1)"
    let ?q = "fst (visitOption jsx qualifier ?g2)"
    let ?g3 = "snd (visitOption jsx qualifier ?g2)"
    let ?t = "fst (visitNodes jsx typeArguments ?g3)"
    have a: "visit jsx argument h = (?a, mark (?a \<noteq> argument) h)" if "agree g h" for h
      using "5.IH"(1) [OF False that] .
    have "?g1 = mark (?a \<noteq> argument) g"
      using a [OF agree_refl] by (metis snd_conv)
    then have g1: "agree ?g1 (mark (?a \<noteq> argument) h)" if "agree g h" for h
      using agree_mark [OF that] by metis
    have s: "visitOption jsx assertions h = (?s, mark (?s \<noteq> assertions) h)"
      if "agree ?g1 h" for h
      using "5.IH"(2) [OF False _ that, of ?a] by simp
    have "?g2 = mark (?s \<noteq> assertions) ?g1"
      using s [OF agree_refl] by (metis snd_conv)
    then have g2: "agree ?g2 (mark (?s \<noteq> assertions) h)" if "agree ?g1 h" for h
      using agree_mark [OF that] by metis
    have q: "visitOption jsx qualifier h = (?q, mark (?q \<noteq> qualifier) h)"
      if "agree ?g2 h" for h
      using "5.IH"(3) [OF False _ _ that, of ?a ?g1 ?s] by simp
    have "?g3 = mark (?q \<noteq> qualifier) ?g2"
      using q [OF agree_refl] by (metis snd_conv)
    then have g3: "agree ?g3 (mark (?q \<noteq> qualifier) h)" if "agree ?g2 h" for h
      using agree_mark [OF that] by metis
    have t: "visitNodes jsx typeArguments h = (?t, mark (?t \<noteq> typeArguments) h)"
      if "agree ?g3 h" for h
      using "5.IH"(4) [OF False _ _ _ that, of ?a ?g1 ?s ?g2 ?q] by simp
    have "visit jsx (ImportTypeNode argument assertions qualifier typeArguments isTypeOf) g2 =
        (ImportTypeNode ?a ?s ?q ?t isTypeOf,
         mark (?t \<noteq> typeArguments) (mark (?q \<noteq> qualifier)
           (mark (?s \<noteq> assertions) (mark (?a \<noteq> argument) g2))))"
      using a [OF "5.prems"] s [OF g1 [OF "5.prems"]] q [OF g2 [OF g1 [OF "5.prems"]]]
        t [OF g3 [OF g2 [OF g1 [OF "5.prems"]]]]
      by (simp add: visit_import_type_other [OF False])
    moreover have
      "fst (visit jsx (ImportTypeNode argument assertions qualifier typeArguments isTypeOf) g) =
        ImportTypeNode ?a ?s ?q ?t isTypeOf"
      by (simp add: visit_import_type_other [OF False] split_beta)
    ultimately show ?thesis
      by (auto simp: mark_def)
  qed
next
  case (6 jsx lit g)
  from "6.IH" [OF "6.prems"] show ?case
    by (simp add: split_beta)
next
  case (7 jsx kind children g)
  from "7.IH" [OF "7.prems"] show ?case
    by (simp add: split_beta)
next
  case (8 jsx literalText g)
  show ?case by (simp add: mark_def)
next
  case (9 jsx g)
  show ?case by (simp add: mark_def)
next
  case (10 jsx g)
  show ?case by (simp add: mark_def)
next
  case (11 jsx n ns g)
  let ?n = "fst (visit jsx n g)"
  let ?g1 = "snd (visit jsx n g)"
  let ?ns = "fst (visitNodes jsx ns ?g1)"
  have n: "visit jsx n h = (?n, mark (?n \<noteq> n) h)" if "agree g h" for h
    using "11.IH"(1) [OF that] .
  have "?g1 = mark (?n \<noteq> n) g"
    using n [OF agree_refl] by (metis snd_conv)
  then have g1: "agree ?g1 (mark (?n \<noteq> n) h)" if "agree g h" for h
    using agree_mark [OF that] by metis
  have ns: "visitNodes jsx ns h = (?ns, mark (?ns \<noteq> ns) h)" if "agree ?g1 h" for h
    using "11.IH"(2) [OF _ that, of ?n] by simp
  have "visitNodes jsx (n # ns) g2 = (?n # ?ns, mark (?ns \<noteq> ns) (mark (?n \<noteq> n) g2))"
    using n [OF "11.prems"] ns [OF g1 [OF "11.prems"]] by simp
  moreover have "fst (visitNodes jsx (n # ns) g) = ?n # ?ns"
    by (simp add: split_beta)
  ultimately show ?case
    by (auto simp: mark_def)
next
  case (12 jsx g)
  show ?case by (simp add: mark_def)
next
  case (13 jsx n g)
  from "13.IH" [OF "13.prems"] show ?case
    by (simp add: split_beta)
qed


lemma visit_result:
  "visit jsx n g = (fst (visit jsx n g), mark (fst (visit jsx n g) \<noteq> n) g)"
  "visitNodes jsx ns g = (fst (visitNodes jsx ns g), mark (fst (visitNodes jsx ns g) \<noteq> ns) g)"
  "visitOption jsx no g =
     (fst (visitOption jsx no g), mark (fst (visitOption jsx no g) \<noteq> no) g)"
  using visit_agree [OF agree_refl] by blast+

lemma fst_visit_agree:
  assumes "agree g g2"
  shows "fst (visit jsx n g2) = fst (visit jsx n g)"
    "fst (visitNodes jsx ns g2) = fst (visitNodes jsx ns g)"
    "fst (visitOption jsx no g2) = fst (visitOption jsx no g)"
  using visit_agree [OF assms] by simp_all

lemma agree_snd_visit:
  "agree (snd (visit jsx n g)) g" "agree (snd (visitNodes jsx ns g)) g"
  "agree (snd (visitOption jsx no g)) g"
  by (metis agree_mark agree_refl mark_False snd_conv visit_result(1),
      metis agree_mark agree_refl mark_False snd_conv visit_result(2),
      metis agree_mark agree_refl mark_False snd_conv visit_result(3))

lemma fst_visitNodes: "fst (visitNodes jsx ns g) = map (\<lambda>n. fst (visit jsx n g)) ns"
proof (induction ns arbitrary: g)
  case Nil
  show ?case by simp
next
  case (Cons n ns)
  have "fst (visitNodes jsx ns (snd (visit jsx n g))) = fst (visitNodes jsx ns g)"
    by (rule fst_visit_agree(2)) (metis agree_def agree_snd_visit(1))
  with Cons show ?case by (simp add: split_beta)
qed

lemma fst_visitOption: "fst (visitOption jsx no g) = map_option (\<lambda>n. fst (visit jsx n g)) no"
  by (cases no) (simp_all add: split_beta)

lemma fst_visit_SourceFile:
  "fst (visit jsx (SourceFile statements) g) =
     SourceFile (map (\<lambda>n. fst (visit jsx n g)) statements)"
  by (simp add: split_beta fst_visitNodes)

lemma fst_visit_OtherNode:
  "fst (visit jsx (OtherNode kind children) g) =
     OtherNode kind (map (\<lambda>n. fst (visit jsx n g)) children)"
  by (simp add: split_beta fst_visitNodes)

lemma fst_visit_LiteralTypeNode:
  "fst (visit jsx (LiteralTypeNode lit) g) = LiteralTypeNode (fst (visit jsx lit g))"
  by (simp add: split_beta)

lemma fst_visit_ImportDeclaration:
  "fst (visit jsx (ImportDeclaration modifiers importClause moduleSpecifier assertClause) g) =
     ImportDeclaration modifiers importClause
       (fst (updateImportPathExpr jsx moduleSpecifier g)) assertClause"
  by (simp add: split_beta)

lemma fst_visit_ExportDeclaration:
  "fst (visit jsx (ExportDeclaration modifiers isTypeOnly exportClause moduleSpecifier
      assertClause) g) =
     ExportDeclaration modifiers isTypeOnly exportClause
       (fst (updateImportPath jsx moduleSpecifier g)) assertClause"
  by (simp add: split_beta)

lemma fst_visit_call_import:
  "fst (visit jsx (CallExpression ImportKeyword typeArguments (a # rest)) g) =
     CallExpression ImportKeyword typeArguments (fst (updateImportPathExpr jsx a g) # rest)"
  by (simp add: visit_call_import split_beta)

lemma fst_visit_call_other:
  assumes "\<not> (expression = ImportKeyword \<and> arguments \<noteq> [])"
  shows "fst (visit jsx (CallExpression expression typeArguments arguments) g) =
     CallExpression (fst (visit jsx expression g))
       (map (\<lambda>n. fst (visit jsx n g)) typeArguments)
       (map (\<lambda>n. fst (visit jsx n g)) arguments)"
proof -
  let ?g1 = "snd (visit jsx expression g)"
  let ?g2 = "snd (visitNodes jsx typeArguments ?g1)"
  have 1: "agree g ?g1" by (metis agree_def agree_snd_visit(1))
  have 2: "agree g ?g2" by (metis agree_def agree_snd_visit(1,2))
  show ?thesis
    by (simp add: visit_call_other [OF assms] split_beta fst_visitNodes
        fst_visit_agree(1) [OF 1] fst_visit_agree(1) [OF 2])
qed

lemma fst_visit_import_type_literal:
  "fst (visit jsx (ImportTypeNode (LiteralTypeNode (StringLiteral spec)) assertions qualifier
      typeArguments isTypeOf) g) =
     ImportTypeNode (LiteralTypeNode (fst (updateImportPathExpr jsx (StringLiteral spec) g)))
       assertions qualifier typeArguments isTypeOf"
  unfolding visit_import_type_literal by (simp add: split_beta)

lemma fst_visit_import_type_other:
  assumes "\<not> (isLiteralTypeNode argument \<and> isStringLiteral (literal argument))"
  shows "fst (visit jsx (ImportTypeNode argument assertions qualifier typeArguments isTypeOf) g) =
     ImportTypeNode (fst (visit jsx argument g))
       (map_option (\<lambda>n. fst (visit jsx n g)) assertions)
       (map_option (\<lambda>n. fst (visit jsx n g)) qualifier)
       (map (\<lambda>n. fst (visit jsx n g)) typeArguments) isTypeOf"
proof -
  let ?g1 = "snd (visit jsx argument g)"
  let ?g2 = "snd (visitOption jsx assertions ?g1)"
  let ?g3 = "snd (visitOption jsx qualifier ?g2)"
  have 1: "agree g ?g1" by (metis agree_def agree_snd_visit(1))
  have 2: "agree g ?g2" by (metis agree_def agree_snd_visit(1,3))
  have 3: "agree g ?g3" by (metis agree_def agree_snd_visit(1,3))
  show ?thesis
    by (simp add: visit_import_type_other [OF assms] split_beta fst_visitNodes fst_visitOption
        fst_visit_agree(1) [OF 1] fst_visit_agree(1) [OF 2] fst_visit_agree(1) [OF 3])
qed

text \<open>The resolver and the visitor, applied to their own result.\<close>

lemma fst_visit_leaf:
  "fst (visit jsx (StringLiteral spec) g) = StringLiteral spec"
  "fst (visit jsx ImportKeyword g) = ImportKeyword"
  by simp_all

declare visit.simps [simp del]

lemma endsWith_append [simp]: "endsWith (s @ suf) suf"
  by (simp add: endsWith_def suffix_def)

lemma endsWith_index_js [simp]: "endsWith (s @ ''/index.js'') ''.js''"
  using endsWith_append [of "s @ ''/index''" "''.js''"] by simp

lemma endsWith_index_jsx [simp]: "endsWith (s @ ''/index.jsx'') ''.jsx''"
  using endsWith_append [of "s @ ''/index''" "''.jsx''"] by simp

lemma updateImportPathExpr_unmatched:
  "unmatched g spec \<Longrightarrow> updateImportPathExpr jsx (StringLiteral spec) g = (StringLiteral spec, g)"
  by (simp add: unmatched_def)

lemma updateImportPathExpr_js:
  "endsWith spec ''.js'' \<Longrightarrow>
   updateImportPathExpr jsx (StringLiteral spec) g = (StringLiteral spec, g)"
  by simp

lemma updateImportPathExpr_result:
  "\<exists>spec'. fst (updateImportPathExpr jsx (StringLiteral spec) g) = StringLiteral spec' \<and>
     (spec' = spec \<or> endsWith spec' ''.js'' \<or> jsx \<and> endsWith spec' ''.jsx'')"
  by simp

lemma updateImportPathExpr_idem:
  assumes "jsx \<longrightarrow> (\<forall>spec. endsWith spec ''.jsx'' \<longrightarrow> unmatched g spec)"
  shows "fst (updateImportPathExpr jsx (fst (updateImportPathExpr jsx n g)) g) =
    fst (updateImportPathExpr jsx n g)"
proof (cases n)
  case (StringLiteral spec)
  obtain spec' where r: "fst (updateImportPathExpr jsx (StringLiteral spec) g) = StringLiteral spec'"
    and c: "spec' = spec \<or> endsWith spec' ''.js'' \<or> jsx \<and> endsWith spec' ''.jsx''"
    using updateImportPathExpr_result by blast
  from c have "fst (updateImportPathExpr jsx (StringLiteral spec') g) = StringLiteral spec'"
  proof (elim disjE conjE)
    assume "spec' = spec"
    with r show ?thesis by simp
  next
    assume "endsWith spec' ''.js''"
    then show ?thesis by (simp only: updateImportPathExpr_js fst_conv)
  next
    assume jsx and "endsWith spec' ''.jsx''"
    with assms have "unmatched g spec'" by blast
    then show ?thesis by (simp only: updateImportPathExpr_unmatched fst_conv)
  qed
  then show ?thesis
    unfolding StringLiteral r .
qed simp_all

lemma updateImportPath_idem:
  assumes "jsx \<longrightarrow> (\<forall>spec. endsWith spec ''.jsx'' \<longrightarrow> unmatched g spec)"
  shows "fst (updateImportPath jsx (fst (updateImportPath jsx n g)) g) =
    fst (updateImportPath jsx n g)"
  using updateImportPathExpr_idem [OF assms] by (cases n) (simp_all add: split_beta)

lemma updateImportPathExpr_StringLiteral:
  "\<exists>spec'. fst (updateImportPathExpr jsx (StringLiteral spec) g) = StringLiteral spec'"
  by simp

lemma fst_visit_StringLiteral:
  "fst (visit jsx n g) = StringLiteral spec \<longleftrightarrow> n = StringLiteral spec"
proof (cases n)
  case (CallExpression e t a)
  show ?thesis
  proof (cases "e = ImportKeyword \<and> a \<noteq> []")
    case True
    then obtain x xs where "a = x # xs" by (cases a) auto
    with True show ?thesis by (simp add: CallExpression fst_visit_call_import)
  next
    case False
    then show ?thesis by (simp add: CallExpression fst_visit_call_other)
  qed
next
  case (ImportTypeNode arg as q t b)
  show ?thesis
  proof (cases "isLiteralTypeNode arg \<and> isStringLiteral (literal arg)")
    case True
    then obtain s where "arg = LiteralTypeNode (StringLiteral s)"
      using literal_import_cases by blast
    then show ?thesis by (simp add: ImportTypeNode fst_visit_import_type_literal)
  next
    case False
    then show ?thesis by (simp add: ImportTypeNode fst_visit_import_type_other)
  qed
qed (simp_all add: fst_visit_leaf fst_visit_SourceFile fst_visit_OtherNode
    fst_visit_LiteralTypeNode fst_visit_ImportDeclaration fst_visit_ExportDeclaration)

lemma fst_visit_ImportKeyword:
  "fst (visit jsx n g) = ImportKeyword \<longleftrightarrow> n = ImportKeyword"
proof (cases n)
  case (CallExpression e t a)
  show ?thesis
  proof (cases "e = ImportKeyword \<and> a \<noteq> []")
    case True
    then obtain x xs where "a = x # xs" by (cases a) auto
    with True show ?thesis by (simp add: CallExpression fst_visit_call_import)
  next
    case False
    then show ?thesis by (simp add: CallExpression fst_visit_call_other)
  qed
next
  case (ImportTypeNode arg as q t b)
  show ?thesis
  proof (cases "isLiteralTypeNode arg \<and> isStringLiteral (literal arg)")
    case True
    then obtain s where "arg = LiteralTypeNode (StringLiteral s)"
      using literal_import_cases by blast
    then show ?thesis by (simp add: ImportTypeNode fst_visit_import_type_literal)
  next
    case False
    then show ?thesis by (simp add: ImportTypeNode fst_visit_import_type_other)
  qed
qed (simp_all add: fst_visit_leaf fst_visit_SourceFile fst_visit_OtherNode
    fst_visit_LiteralTypeNode fst_visit_ImportDeclaration fst_visit_ExportDeclaration)

lemma fst_visit_literal_import:
  "isLiteralTypeNode (fst (visit jsx n g)) \<and> isStringLiteral (literal (fst (visit jsx n g)))
   \<longleftrightarrow> isLiteralTypeNode n \<and> isStringLiteral (literal n)"
proof (cases n)
  case (CallExpression e t a)
  show ?thesis
  proof (cases "e = ImportKeyword \<and> a \<noteq> []")
    case True
    then obtain x xs where "a = x # xs" by (cases a) auto
    with True show ?thesis by (simp add: CallExpression fst_visit_call_import)
  next
    case False
    then show ?thesis by (simp add: CallExpression fst_visit_call_other)
  qed
next
  case (ImportTypeNode arg as q t b)
  show ?thesis
  proof (cases "isLiteralTypeNode arg \<and> isStringLiteral (literal arg)")
    case True
    then obtain s where "arg = LiteralTypeNode (StringLiteral s)"
      using literal_import_cases by blast
    then show ?thesis by (simp add: ImportTypeNode fst_visit_import_type_literal)
  next
    case False
    then show ?thesis by (simp add: ImportTypeNode fst_visit_import_type_other)
  qed
next
  case (LiteralTypeNode lit)
  have "isStringLiteral (fst (visit jsx lit g)) \<longleftrightarrow> isStringLiteral lit"
    using fst_visit_StringLiteral [of jsx lit g]
    by (metis isStringLiteral.elims(2) isStringLiteral.simps(1))
  then show ?thesis by (simp add: LiteralTypeNode fst_visit_LiteralTypeNode)
qed (simp_all add: fst_visit_leaf fst_visit_SourceFile fst_visit_OtherNode
    fst_visit_LiteralTypeNode fst_visit_ImportDeclaration fst_visit_ExportDeclaration)

lemma fst_visit_idem:
  assumes "jsx \<longrightarrow> (\<forall>spec. endsWith spec ''.jsx'' \<longrightarrow> unmatched g spec)"
  shows "fst (visit jsx (fst (visit jsx n g)) g) = fst (visit jsx n g)"
proof (induction n)
  case (StringLiteral x)
  show ?case by (simp add: fst_visit_leaf)
next
  case ImportKeyword
  show ?case by (simp add: fst_visit_leaf)
next
  case (SourceFile x)
  then show ?case by (simp add: fst_visit_SourceFile)
next
  case (ImportDeclaration x1 x2 x3 x4)
  show ?case
    by (simp add: fst_visit_ImportDeclaration updateImportPathExpr_idem [OF assms])
next
  case (ExportDeclaration x1 x2 x3 x4 x5)
  show ?case
    by (simp add: fst_visit_ExportDeclaration updateImportPath_idem [OF assms])
next
  case (CallExpression e t a)
  show ?case
  proof (cases "e = ImportKeyword \<and> a \<noteq> []")
    case True
    then obtain x xs where "a = x # xs" by (cases a) auto
    with True show ?thesis
      by (simp add: fst_visit_call_import updateImportPathExpr_idem [OF assms])
  next
    case False
    then have "\<not> (fst (visit jsx e g) = ImportKeyword \<and> map (\<lambda>n. fst (visit jsx n g)) a \<noteq> [])"
      by (simp add: fst_visit_ImportKeyword)
    with False CallExpression show ?thesis
      by (simp add: fst_visit_call_other)
  qed
next
  case (ImportTypeNode arg as q t b)
  show ?case
  proof (cases "isLiteralTypeNode arg \<and> isStringLiteral (literal arg)")
    case True
    then obtain s where arg: "arg = LiteralTypeNode (StringLiteral s)"
      using literal_import_cases by blast
    obtain s' where s': "fst (updateImportPathExpr jsx (StringLiteral s) g) = StringLiteral s'"
      using updateImportPathExpr_StringLiteral by blast
    have "fst (updateImportPathExpr jsx (StringLiteral s') g) = StringLiteral s'"
      using updateImportPathExpr_idem [OF assms, of "StringLiteral s"] s' by simp
    then show ?thesis
      unfolding arg fst_visit_import_type_literal s' by simp
  next
    case False
    then have "\<not> (isLiteralTypeNode (fst (visit jsx arg g)) \<and>
        isStringLiteral (literal (fst (visit jsx arg g))))"
      by (simp add: fst_visit_literal_import)
    with False ImportTypeNode show ?thesis
      by (cases as; cases q) (simp_all add: fst_visit_import_type_other)
  qed
next
  case (LiteralTypeNode n)
  then show ?case by (simp add: fst_visit_LiteralTypeNode)
next
  case (OtherNode x1 x2)
  then show ?case by (simp add: fst_visit_OtherNode)
qed

subsection \<open>The run driver\<close>

text \<open>
  The pipeline of one file: it reads the file, and writes it exactly when the visitor
  has returned a tree other than the one it was given.
\<close>

lemma visit_transformed:
  "visit jsx n g = (transformed jsx (visited g) (currentVisitingFile g) n,
     mark (transformed jsx (visited g) (currentVisitingFile g) n \<noteq> n) g)"
proof -
  have "agree \<lparr>visited = visited g, currentVisitingFile = currentVisitingFile g,
      hasUpdate = False\<rparr> g"
    by (simp add: agree_def)
  from visit_agree(1) [OF this] show ?thesis
    by (simp add: transformed_def)
qed

lemma processFile_unreadable:
  "files w path = None \<Longrightarrow>
   processFile ext jsx cfg path (w, g) = (Rejected, w\<lparr>trace := trace w @ [ReadFile path]\<rparr>, g)"
  by (simp add: readFile_def)

lemma processFile_unchanged:
  assumes "files w path = Some file"
    and "transformed jsx (visited g) path (source ext path file) = source ext path file"
  shows "processFile ext jsx cfg path (w, g) =
    (Fulfilled, w\<lparr>trace := trace w @ [ReadFile path]\<rparr>,
     g\<lparr>hasUpdate := False, currentVisitingFile := path\<rparr>)"
  using assms by (simp add: readFile_def visit_transformed mark_def)

lemma processFile_changed:
  assumes "files w path = Some file"
    and "transformed jsx (visited g) path (source ext path file) \<noteq> source ext path file"
  shows "\<exists>r data. processFile ext jsx cfg path (w, g) =
      (r, w\<lparr>files := (files w)(path \<mapsto>
               fileAfter ext jsx cfg (visited g) (readOnly w) path file),
           trace := trace w @ [ReadFile path] @ data\<rparr>,
       g\<lparr>hasUpdate := True, currentVisitingFile := path\<rparr>) \<and>
     (data = [] \<and> fileAfter ext jsx cfg (visited g) (readOnly w) path file = file \<or>
      (\<exists>text. data = [WriteFile path text]))"
  using assms
  by (auto simp: readFile_def writeFile_def settle_def visit_transformed mark_def fileAfter_def
      Let_def fun_upd_idem split: option.splits)

declare processFile.simps [simp del]

lemma processFile_effect:
  assumes "processFile ext jsx cfg path (w, g) = (r, w', g')"
  shows "visited g' = visited g \<and> listing w' = listing w \<and> readOnly w' = readOnly w \<and>
    files w' = (files w)(path :=
      map_option (fileAfter ext jsx cfg (visited g) (readOnly w) path) (files w path)) \<and>
    (trace w' = trace w @ [ReadFile path] \<and> files w' = files w \<or>
     (\<exists>file data. files w path = Some file \<and>
        transformed jsx (visited g) path (source ext path file) \<noteq> source ext path file \<and>
        trace w' = trace w @ [ReadFile path, WriteFile path data]))"
proof (cases "files w path")
  case None
  from assms have "(r, w', g') = (Rejected, w\<lparr>trace := trace w @ [ReadFile path]\<rparr>, g)"
    by (simp only: processFile_unreadable [OF None])
  with None show ?thesis by auto
next
  case (Some content)
  show ?thesis
  proof (cases "transformed jsx (visited g) path (source ext path content) = source ext path content")
    case True
    from assms have "(r, w', g') = (Fulfilled, w\<lparr>trace := trace w @ [ReadFile path]\<rparr>,
        g\<lparr>hasUpdate := False, currentVisitingFile := path\<rparr>)"
      by (simp only: processFile_unchanged [OF Some True])
    with Some True show ?thesis
      by (auto simp: fileAfter_def Let_def)
  next
    case False
    from processFile_changed [OF Some False, of cfg] assms Some False show ?thesis
      by (auto simp: fun_upd_idem)
  qed
qed

subsection \<open>A second run\<close>

text \<open>
  C1, as amended. A second run changes nothing when the \<open>jsx\<close> flag is off, and when
  it is on provided no specifier that ends in \<open>.jsx\<close> passes one of the four tests
  against the File Index. Then the visitor returns the tree of the first run as it is
  and leaves \<open>hasUpdate\<close> alone; and a file whose text parses to the tree of the first
  run is read and not written.
\<close>

theorem second_run_changes_nothing:
  assumes "visited g2 = visited g"
    and "jsx \<longrightarrow> (\<forall>spec. endsWith spec ''.jsx'' \<longrightarrow> unmatched g spec)"
  shows "(currentVisitingFile g2 = currentVisitingFile g \<longrightarrow>
            visit jsx (fst (visit jsx tree g)) g2 = (fst (visit jsx tree g), g2)) \<and>
         (currentVisitingFile g = path \<and> files w path = Some content \<and>
          source ext path content = fst (visit jsx tree g) \<longrightarrow>
            processFile ext jsx cfg path (w, g2) =
              (Fulfilled, w\<lparr>trace := trace w @ [ReadFile path]\<rparr>,
               g2\<lparr>hasUpdate := False, currentVisitingFile := path\<rparr>))"
proof (intro conjI impI)
  assume "currentVisitingFile g2 = currentVisitingFile g"
  with assms(1) have "agree g g2"
    by (simp add: agree_def)
  from visit_agree(1) [OF this, of jsx "fst (visit jsx tree g)"]
  show "visit jsx (fst (visit jsx tree g)) g2 = (fst (visit jsx tree g), g2)"
    by (simp add: fst_visit_idem [OF assms(2)] mark_def)
next
  assume a: "currentVisitingFile g = path \<and> files w path = Some content \<and>
    source ext path content = fst (visit jsx tree g)"
  then have "agree g \<lparr>visited = visited g2, currentVisitingFile = path, hasUpdate = False\<rparr>"
    using assms(1) by (simp add: agree_def)
  from fst_visit_agree(1) [OF this, of jsx "fst (visit jsx tree g)"]
  have "transformed jsx (visited g2) path (source ext path content) = source ext path content"
    using a by (simp add: transformed_def fst_visit_idem [OF assms(2)])
  with a show "processFile ext jsx cfg path (w, g2) =
      (Fulfilled, w\<lparr>trace := trace w @ [ReadFile path]\<rparr>,
       g2\<lparr>hasUpdate := False, currentVisitingFile := path\<rparr>)"
    by (simp add: processFile_unchanged)
qed

theorem second_run_changes_nothing_witness:
  "visit False importOfA gBoth =
     (SourceFile [ImportDeclaration [] None (StringLiteral ''./a.js'') None],
      gBoth\<lparr>hasUpdate := True\<rparr>) \<and>
   visit False (fst (visit False importOfA gBoth)) gBoth =
     (SourceFile [ImportDeclaration [] None (StringLiteral ''./a.js'') None], gBoth) \<and>
   visit True importOfA gTsxOnly =
     (SourceFile [ImportDeclaration [] None (StringLiteral ''./a.jsx'') None],
      gTsxOnly\<lparr>hasUpdate := True\<rparr>) \<and>
   visit True (fst (visit True importOfA gTsxOnly)) gTsxOnly =
     (SourceFile [ImportDeclaration [] None (StringLiteral ''./a.jsx'') None], gTsxOnly)"
proof -
  have 1: "visit False importOfA gBoth =
     (SourceFile [ImportDeclaration [] None (StringLiteral ''./a.js'') None],
      gBoth\<lparr>hasUpdate := True\<rparr>)"
    by code_simp
  have 2: "visit True importOfA gTsxOnly =
     (SourceFile [ImportDeclaration [] None (StringLiteral ''./a.jsx'') None],
      gTsxOnly\<lparr>hasUpdate := True\<rparr>)"
    by code_simp
  have d: "''/p'' \<noteq> []" "hd ''/p'' = CHR ''/''" "regularSegment ''b.ts''"
    "currentVisitingFile gTsxOnly = join [''/p'', ''b.ts'']"
    by code_simp+
  have i: "\<forall>p\<in>visited gTsxOnly. \<not> sublist ''.jsx.'' p \<and> \<not> sublist ''.jsx/'' p"
    by code_simp
  have h: "True \<longrightarrow> (\<forall>spec. endsWith spec ''.jsx'' \<longrightarrow> unmatched gTsxOnly spec)"
    using jsx_specifiers_unmatched [OF d i] by blast
  show ?thesis
    using 1 2 second_run_changes_nothing [of gBoth gBoth False importOfA, THEN conjunct1]
      second_run_changes_nothing [OF refl h, of importOfA, THEN conjunct1]
    by simp
qed

text \<open>
  C1, as stated, fails with the \<open>jsx\<close> flag on: with \<open>/p/a.tsx\<close> and
  \<open>/p/a.jsx.ts\<close> in the File Index, the first run rewrites \<open>./a\<close> to \<open>./a.jsx\<close>
  and the second run rewrites that to \<open>./a.jsx.js\<close>, in the tree and, for two runs
  of the program on the folder, in the file.
\<close>

theorem second_run_rewrites_jsx:
  "visit True importOfA gJsxTs =
     (SourceFile [ImportDeclaration [] None (StringLiteral ''./a.jsx'') None],
      gJsxTs\<lparr>hasUpdate := True\<rparr>) \<and>
   visit True (fst (visit True importOfA gJsxTs)) gJsxTs =
     (SourceFile [ImportDeclaration [] None (StringLiteral ''./a.jsx.js'') None],
      gJsxTs\<lparr>hasUpdate := True\<rparr>) \<and>
   fst (visit True (fst (visit True importOfA gJsxTs)) gJsxTs) \<noteq>
     fst (visit True importOfA gJsxTs) \<and>
   files (snd (main toyExternals ''/'' jsxArg [] False jsxWorld)) ''/p/b.ts'' = Some ''./a.jsx'' \<and>
   files (snd (main toyExternals ''/'' jsxArg [] False
     (snd (main toyExternals ''/'' jsxArg [] False jsxWorld)))) ''/p/b.ts'' = Some ''./a.jsx.js''"
  by code_simp

subsection \<open>Runs over several files\<close>

text \<open>
  What a run does to the trace and to the files, and the text each file holds after a
  run over distinct files.
\<close>

lemma processFiles_Cons:
  "processFiles ext jsx cfg (path # paths) (w, g) = (rs, w', g') \<longleftrightarrow>
   (\<exists>r w1 g1 rs'. processFile ext jsx cfg path (w, g) = (r, w1, g1) \<and>
      processFiles ext jsx cfg paths (w1, g1) = (rs', w', g') \<and> rs = r # rs')"
  by (auto split: prod.splits)

lemma processFiles_effect:
  assumes "processFiles ext jsx cfg paths (w, g) = (rs, w', g')"
  shows "visited g' = visited g \<and> dom (files w') = dom (files w) \<and>
    (\<exists>tr. trace w' = trace w @ tr \<and>
       written tr \<subseteq> {p \<in> set paths. \<exists>content. files w p = Some content \<and>
          transformed jsx (visited g) p (source ext p content) \<noteq> source ext p content} \<and>
       (\<forall>p. p \<notin> written tr \<longrightarrow> files w' p = files w p))"
  using assms
proof (induction paths arbitrary: w g rs)
  case Nil
  then show ?case by auto
next
  case (Cons x xs)
  from Cons.prems obtain r w1 g1 rs' where
    step: "processFile ext jsx cfg x (w, g) = (r, w1, g1)" and
    rest: "processFiles ext jsx cfg xs (w1, g1) = (rs', w', g')"
    unfolding processFiles_Cons by blast
  from processFile_effect [OF step] have
    g1: "visited g1 = visited g" and
    f1: "files w1 = (files w)(x :=
      map_option (fileAfter ext jsx cfg (visited g) (readOnly w) x) (files w x))" and
    t1: "trace w1 = trace w @ [ReadFile x] \<and> files w1 = files w \<or>
     (\<exists>content data. files w x = Some content \<and>
        transformed jsx (visited g) x (source ext x content) \<noteq> source ext x content \<and>
        trace w1 = trace w @ [ReadFile x, WriteFile x data])"
    by blast+
  from Cons.IH [OF rest] obtain tr' where
    g': "visited g' = visited g1" and d': "dom (files w') = dom (files w1)" and
    tr': "trace w' = trace w1 @ tr'" and
    wr': "written tr' \<subseteq> {p \<in> set xs. \<exists>content. files w1 p = Some content \<and>
          transformed jsx (visited g1) p (source ext p content) \<noteq> source ext p content}" and
    fr': "\<forall>p. p \<notin> written tr' \<longrightarrow> files w' p = files w1 p"
    by blast
  have dom1: "dom (files w1) = dom (files w)"
    unfolding f1 by (cases "files w x") auto
  from t1 show ?case
  proof (elim disjE conjE exE)
    assume a: "trace w1 = trace w @ [ReadFile x]" "files w1 = files w"
    have "trace w' = trace w @ (ReadFile x # tr')"
      using tr' a by simp
    moreover have "written (ReadFile x # tr') \<subseteq> {p \<in> set (x # xs). \<exists>content.
        files w p = Some content \<and>
        transformed jsx (visited g) p (source ext p content) \<noteq> source ext p content}"
      using wr' a g1 by auto
    moreover have "\<forall>p. p \<notin> written (ReadFile x # tr') \<longrightarrow> files w' p = files w p"
      using fr' a by simp
    ultimately show ?thesis
      using g' g1 d' dom1 by blast
  next
    fix content data
    assume b: "files w x = Some content"
      "transformed jsx (visited g) x (source ext x content) \<noteq> source ext x content"
      "trace w1 = trace w @ [ReadFile x, WriteFile x data]"
    have other: "files w1 p = files w p" if "p \<noteq> x" for p
      using that by (simp add: f1)
    have "trace w' = trace w @ (ReadFile x # WriteFile x data # tr')"
      using tr' b by simp
    moreover have "written (ReadFile x # WriteFile x data # tr') \<subseteq> {p \<in> set (x # xs).
        \<exists>content. files w p = Some content \<and>
        transformed jsx (visited g) p (source ext p content) \<noteq> source ext p content}"
    proof
      fix p
      assume "p \<in> written (ReadFile x # WriteFile x data # tr')"
      then consider "p = x" | "p \<noteq> x" "p \<in> written tr'" by auto
      then show "p \<in> {p \<in> set (x # xs). \<exists>content. files w p = Some content \<and>
        transformed jsx (visited g) p (source ext p content) \<noteq> source ext p content}"
      proof cases
        case 1
        with b show ?thesis by simp
      next
        case 2
        with wr' other g1 show ?thesis by auto
      qed
    qed
    moreover have "\<forall>p. p \<notin> written (ReadFile x # WriteFile x data # tr') \<longrightarrow>
        files w' p = files w p"
      using fr' other by simp
    ultimately show ?thesis
      using g' g1 d' dom1 by blast
  qed
qed

lemma processFiles_files:
  assumes "processFiles ext jsx cfg paths (w, g) = (rs, w', g')" and "distinct paths"
  shows "files w' p =
    (if p \<in> set paths
     then map_option (fileAfter ext jsx cfg (visited g) (readOnly w) p) (files w p)
     else files w p)"
  using assms
proof (induction paths arbitrary: w g rs)
  case Nil
  then show ?case by auto
next
  case (Cons x xs)
  from Cons.prems obtain r w1 g1 rs' where
    step: "processFile ext jsx cfg x (w, g) = (r, w1, g1)" and
    rest: "processFiles ext jsx cfg xs (w1, g1) = (rs', w', g')"
    unfolding processFiles_Cons by blast
  from processFile_effect [OF step] have
    g1: "visited g1 = visited g" and
    r1: "readOnly w1 = readOnly w" and
    f1: "files w1 = (files w)(x :=
      map_option (fileAfter ext jsx cfg (visited g) (readOnly w) x) (files w x))"
    by blast+
  from Cons.prems have "x \<notin> set xs" "distinct xs" by simp_all
  with Cons.IH [OF rest] show ?case
    by (auto simp: f1 g1 r1)
qed

lemma processFiles_order:
  assumes "processFiles ext jsx cfg paths (w, g) = (rs, w', g')"
    and "processFiles ext jsx cfg paths2 (w, g2) = (rs2, w2, g2')"
    and "distinct paths" "distinct paths2" "set paths = set paths2" "visited g = visited g2"
  shows "files w' = files w2"
proof
  fix p
  show "files w' p = files w2 p"
    using processFiles_files [OF assms(1,3), of p] processFiles_files [OF assms(2,4), of p]
      assms(5,6) by simp
qed

text \<open>
  C8. In a run over any list of files: for a file in which the visitor rewrites no
  specifier (the tree it returns is the tree of the file) no write is attempted and the
  file keeps its text; every write is to a file of the list, at its own path, in which a
  specifier was rewritten; every file that is not written keeps its text; and no file is
  created.
\<close>

theorem no_op_skip:
  assumes "processFiles ext jsx cfg paths (w, g) = (rs, w', g')"
  shows "trace w' = trace w @ newEvents w w' \<and>
    (\<forall>p content. files w p = Some content \<and>
        transformed jsx (visited g) p (source ext p content) = source ext p content \<longrightarrow>
        p \<notin> written (newEvents w w') \<and> files w' p = Some content) \<and>
    (\<forall>p\<in>written (newEvents w w'). p \<in> set paths \<and>
        (\<exists>content. files w p = Some content \<and>
           transformed jsx (visited g) p (source ext p content) \<noteq> source ext p content)) \<and>
    (\<forall>p. p \<notin> written (newEvents w w') \<longrightarrow> files w' p = files w p) \<and>
    dom (files w') = dom (files w)"
proof -
  from processFiles_effect [OF assms] obtain tr where
    d: "dom (files w') = dom (files w)" and
    tr: "trace w' = trace w @ tr" and
    wr: "written tr \<subseteq> {p \<in> set paths. \<exists>content. files w p = Some content \<and>
          transformed jsx (visited g) p (source ext p content) \<noteq> source ext p content}" and
    fr: "\<forall>p. p \<notin> written tr \<longrightarrow> files w' p = files w p"
    by blast
  have n: "newEvents w w' = tr"
    by (simp add: newEvents_def tr)
  have "p \<notin> written tr \<and> files w' p = Some content"
    if "files w p = Some content"
      "transformed jsx (visited g) p (source ext p content) = source ext p content"
    for p content
  proof -
    from wr that have "p \<notin> written tr" by auto
    with fr that show ?thesis by simp
  qed
  with d tr wr fr show ?thesis
    unfolding n by blast
qed

theorem no_op_skip_witness:
  "files toyWorld ''/p/a.ts'' = Some ''lodash'' \<and>
   transformed False (visited gToy) ''/p/a.ts'' (source toyExternals ''/p/a.ts'' ''lodash'') =
     source toyExternals ''/p/a.ts'' ''lodash'' \<and>
   written (newEvents toyWorld
     (fst (snd (processFiles toyExternals False None [''/p/a.ts'', ''/p/b.ts''] (toyWorld, gToy)))))
     = {''/p/b.ts''} \<and>
   files (fst (snd (processFiles toyExternals False None [''/p/a.ts'', ''/p/b.ts'']
     (toyWorld, gToy)))) ''/p/a.ts'' = Some ''lodash'' \<and>
   files (fst (snd (processFiles toyExternals False None [''/p/a.ts'', ''/p/b.ts'']
     (toyWorld, gToy)))) ''/p/b.ts'' = Some ''./a.js''"
proof -
  let ?run = "processFiles toyExternals False None [''/p/a.ts'', ''/p/b.ts''] (toyWorld, gToy)"
  have run: "?run = (fst ?run, fst (snd ?run), snd (snd ?run))"
    by simp
  have f: "files toyWorld ''/p/a.ts'' = Some ''lodash''"
    by code_simp
  have t: "transformed False (visited gToy) ''/p/a.ts''
      (source toyExternals ''/p/a.ts'' ''lodash'') = source toyExternals ''/p/a.ts'' ''lodash''"
    by code_simp
  have w: "written (newEvents toyWorld (fst (snd ?run))) = {''/p/b.ts''}"
    by code_simp
  have b: "files (fst (snd ?run)) ''/p/b.ts'' = Some ''./a.js''"
    by code_simp
  from no_op_skip [OF run] f t
  have "files (fst (snd ?run)) ''/p/a.ts'' = Some ''lodash''"
    by blast
  with f t w b show ?thesis by simp
qed

subsection \<open>What a resolution depends on\<close>

text \<open>
  C3. For a relative specifier that does not end in \<open>.js\<close>, the four tests are made in
  the order file (\<open>.ts\<close> or \<open>.d.ts\<close>), \<open>.tsx\<close> file, directory index (\<open>index.ts\<close> or
  \<open>index.d.ts\<close>), \<open>index.tsx\<close>, and the suffix of the first one that holds is
  appended. The directory tests look up \<open>join(resolution, 'index.ts')\<close>: for a file the
  walk yields and a resolution that does not end in a slash, that is the resolution
  followed by \<open>/index.ts\<close>. With \<open>/p/a.ts\<close> and \<open>/p/a/index.ts\<close> both in the File
  Index \<open>./a\<close> becomes \<open>./a.js\<close>; with \<open>/p/a/index.ts\<close> alone it becomes
  \<open>./a/index.js\<close>.
\<close>

theorem resolution_priority:
  "(startsWith spec ''.'' \<and> \<not> endsWith spec ''.js'' \<longrightarrow>
     updateImportPath jsx (Some (StringLiteral spec)) g =
       (if fileMatch g spec then
          (Some (StringLiteral (spec @ ''.js'')), g\<lparr>hasUpdate := True\<rparr>)
        else if tsxMatch g spec then
          (Some (StringLiteral (spec @ (if jsx then ''.jsx'' else ''.js''))),
           g\<lparr>hasUpdate := True\<rparr>)
        else if indexMatch g spec then
          (Some (StringLiteral (spec @ ''/index.js'')), g\<lparr>hasUpdate := True\<rparr>)
        else if indexTsxMatch g spec then
          (Some (StringLiteral (spec @ (if jsx then ''/index.jsx'' else ''/index.js''))),
           g\<lparr>hasUpdate := True\<rparr>)
        else (Some (StringLiteral spec), g))) \<and>
   (dir \<noteq> [] \<and> hd dir = CHR ''/'' \<and> regularSegment name \<and>
    currentVisitingFile g = join [dir, name] \<and>
    startsWith spec ''.'' \<and> \<not> endsWith (resolution g spec) ''/'' \<longrightarrow>
      (indexMatch g spec \<longleftrightarrow>
         resolution g spec @ ''/index.ts'' \<in> visited g \<or>
         resolution g spec @ ''/index.d.ts'' \<in> visited g) \<and>
      (indexTsxMatch g spec \<longleftrightarrow> resolution g spec @ ''/index.tsx'' \<in> visited g)) \<and>
   fst (updateImportPath jsx (Some (StringLiteral ''./a'')) gBoth) =
     Some (StringLiteral ''./a.js'') \<and>
   fst (updateImportPath jsx (Some (StringLiteral ''./a'')) gIndexOnly) =
     Some (StringLiteral ''./a/index.js'')"
proof (intro conjI impI)
  assume "startsWith spec ''.'' \<and> \<not> endsWith spec ''.js''"
  then show "updateImportPath jsx (Some (StringLiteral spec)) g =
       (if fileMatch g spec then
          (Some (StringLiteral (spec @ ''.js'')), g\<lparr>hasUpdate := True\<rparr>)
        else if tsxMatch g spec then
          (Some (StringLiteral (spec @ (if jsx then ''.jsx'' else ''.js''))),
           g\<lparr>hasUpdate := True\<rparr>)
        else if indexMatch g spec then
          (Some (StringLiteral (spec @ ''/index.js'')), g\<lparr>hasUpdate := True\<rparr>)
        else if indexTsxMatch g spec then
          (Some (StringLiteral (spec @ (if jsx then ''/index.jsx'' else ''/index.js''))),
           g\<lparr>hasUpdate := True\<rparr>)
        else (Some (StringLiteral spec), g))"
    by simp
next
  assume a: "dir \<noteq> [] \<and> hd dir = CHR ''/'' \<and> regularSegment name \<and>
    currentVisitingFile g = join [dir, name] \<and>
    startsWith spec ''.'' \<and> \<not> endsWith (resolution g spec) ''/''"
  then have spec: "spec \<noteq> []"
    by (auto simp: startsWith_def)
  note f = index_forms [of dir name g spec, OF _ _ _ _ spec]
  from a show "indexMatch g spec \<longleftrightarrow>
         resolution g spec @ ''/index.ts'' \<in> visited g \<or>
         resolution g spec @ ''/index.d.ts'' \<in> visited g"
    by (simp add: indexMatch_def f regular_index_names)
  from a show "indexTsxMatch g spec \<longleftrightarrow> resolution g spec @ ''/index.tsx'' \<in> visited g"
    by (simp add: indexTsxMatch_def f regular_index_names)
next
  have "fileMatch gBoth ''./a''" "startsWith ''./a'' ''.''" "\<not> endsWith ''./a'' ''.js''"
    by code_simp+
  then show "fst (updateImportPath jsx (Some (StringLiteral ''./a'')) gBoth) =
     Some (StringLiteral ''./a.js'')"
    by simp
next
  have "\<not> fileMatch gIndexOnly ''./a''" "\<not> tsxMatch gIndexOnly ''./a''"
    "indexMatch gIndexOnly ''./a''" "startsWith ''./a'' ''.''" "\<not> endsWith ''./a'' ''.js''"
    by code_simp+
  then show "fst (updateImportPath jsx (Some (StringLiteral ''./a'')) gIndexOnly) =
     Some (StringLiteral ''./a/index.js'')"
    by simp
qed

theorem resolution_priority_witness:
  "startsWith ''./a'' ''.'' \<and> \<not> endsWith ''./a'' ''.js'' \<and>
   \<not> fileMatch gTsxOnly ''./a'' \<and> tsxMatch gTsxOnly ''./a'' \<and>
   updateImportPath True (Some (StringLiteral ''./a'')) gTsxOnly =
     (Some (StringLiteral ''./a.jsx''), gTsxOnly\<lparr>hasUpdate := True\<rparr>) \<and>
   currentVisitingFile gIndexOnly = join [''/p'', ''b.ts''] \<and>
   resolution gIndexOnly ''./a'' = ''/p/a'' \<and>
   indexMatch gIndexOnly ''./a'' \<and> ''/p/a/index.ts'' \<in> visited gIndexOnly"
proof -
  have c: "startsWith ''./a'' ''.''" "\<not> endsWith ''./a'' ''.js''" by code_simp+
  have t: "\<not> fileMatch gTsxOnly ''./a''" "tsxMatch gTsxOnly ''./a''" by code_simp+
  have d: "''/p'' \<noteq> []" "hd ''/p'' = CHR ''/''" "regularSegment ''b.ts''"
    "currentVisitingFile gIndexOnly = join [''/p'', ''b.ts'']" by code_simp+
  have r: "resolution gIndexOnly ''./a'' = ''/p/a''" by code_simp
  have e: "\<not> endsWith ''/p/a'' ''/''" "''/p/a/index.ts'' \<in> visited gIndexOnly" by code_simp+
  show ?thesis
    using c t d r e
      resolution_priority [of "''./a''" True gTsxOnly, THEN conjunct1]
      resolution_priority [of "''./a''" True gIndexOnly "''/p''" "''b.ts''",
        THEN conjunct2, THEN conjunct1]
    by simp
qed

lemma updateImportPathExpr_same_resolution:
  assumes "visited g2 = visited g" and "\<And>spec. resolution g2 spec = resolution g spec"
  shows "fst (updateImportPathExpr jsx n g2) = fst (updateImportPathExpr jsx n g)"
  by (cases n)
    (simp_all add: assms fileMatch_def tsxMatch_def indexMatch_def indexTsxMatch_def)

lemma updateImportPath_same_resolution:
  assumes "visited g2 = visited g" and "\<And>spec. resolution g2 spec = resolution g spec"
  shows "fst (updateImportPath jsx n g2) = fst (updateImportPath jsx n g)"
  using updateImportPathExpr_same_resolution [OF assms] by (cases n) (simp_all add: split_beta)

lemma updateImportPath_frame:
  "visited (snd (updateImportPath jsx n g)) = visited g \<and>
   currentVisitingFile (snd (updateImportPath jsx n g)) = currentVisitingFile g"
proof -
  have "snd (updateImportPath jsx n g) = mark (fst (updateImportPath jsx n g) \<noteq> n) g"
    using updateImportPath_agree [OF agree_refl, of jsx n g] by (metis snd_conv)
  then show ?thesis by (simp add: mark_def)
qed

lemma processFile_same_index:
  assumes "visited g2 = visited g"
  shows "fst (processFile ext jsx cfg path (w, g2)) = fst (processFile ext jsx cfg path (w, g)) \<and>
    fst (snd (processFile ext jsx cfg path (w, g2))) =
      fst (snd (processFile ext jsx cfg path (w, g)))"
  by (simp add: processFile.simps readFile_def writeFile_def settle_def visit_transformed assms
      mark_def Let_def split: option.splits)

text \<open>
  C7. The specifier \<open>updateImportPath\<close> returns is the same from any two module states
  with the same File Index and the same current file, whatever \<open>hasUpdate\<close> holds; it
  is the same for two files of one directory; the File Index and the current file are
  as they were afterwards. What the pipeline of a file does to the file system does not
  depend on what the module variables held before, and the files after a run are the
  same for every order of the run.
\<close>

theorem resolution_pure:
  "(visited g2 = visited g \<and> currentVisitingFile g2 = currentVisitingFile g \<longrightarrow>
      fst (updateImportPath jsx n g2) = fst (updateImportPath jsx n g)) \<and>
   (dir \<noteq> [] \<and> hd dir = CHR ''/'' \<and> regularSegment name \<and> regularSegment name2 \<and>
    visited g2 = visited g \<and> currentVisitingFile g = join [dir, name] \<and>
    currentVisitingFile g2 = join [dir, name2] \<longrightarrow>
      fst (updateImportPath jsx n g2) = fst (updateImportPath jsx n g)) \<and>
   visited (snd (updateImportPath jsx n g)) = visited g \<and>
   currentVisitingFile (snd (updateImportPath jsx n g)) = currentVisitingFile g \<and>
   visited (snd (visit jsx tree g)) = visited g \<and>
   (visited g2 = visited g \<longrightarrow>
      fst (processFile ext jsx cfg path (w, g2)) = fst (processFile ext jsx cfg path (w, g)) \<and>
      fst (snd (processFile ext jsx cfg path (w, g2))) =
        fst (snd (processFile ext jsx cfg path (w, g)))) \<and>
   (distinct paths \<and> distinct paths2 \<and> set paths2 = set paths \<and> visited g2 = visited g \<longrightarrow>
      files (fst (snd (processFiles ext jsx cfg paths2 (w, g2)))) =
        files (fst (snd (processFiles ext jsx cfg paths (w, g)))))"
proof (intro conjI impI)
  assume "visited g2 = visited g \<and> currentVisitingFile g2 = currentVisitingFile g"
  then show "fst (updateImportPath jsx n g2) = fst (updateImportPath jsx n g)"
    by (intro updateImportPath_same_resolution) (simp_all add: resolution_def)
next
  assume a: "dir \<noteq> [] \<and> hd dir = CHR ''/'' \<and> regularSegment name \<and> regularSegment name2 \<and>
    visited g2 = visited g \<and> currentVisitingFile g = join [dir, name] \<and>
    currentVisitingFile g2 = join [dir, name2]"
  then have "resolution g2 spec = resolution g spec" for spec
    using resolution_same_directory [of dir name2 name spec] by (simp add: resolution_def)
  with a show "fst (updateImportPath jsx n g2) = fst (updateImportPath jsx n g)"
    by (intro updateImportPath_same_resolution) simp_all
next
  show "visited (snd (updateImportPath jsx n g)) = visited g"
    "currentVisitingFile (snd (updateImportPath jsx n g)) = currentVisitingFile g"
    using updateImportPath_frame by blast+
next
  show "visited (snd (visit jsx tree g)) = visited g"
    using agree_snd_visit(1) [of jsx tree g] by (simp add: agree_def)
next
  assume "visited g2 = visited g"
  then show "fst (processFile ext jsx cfg path (w, g2)) = fst (processFile ext jsx cfg path (w, g))"
    "fst (snd (processFile ext jsx cfg path (w, g2))) =
        fst (snd (processFile ext jsx cfg path (w, g)))"
    using processFile_same_index by blast+
next
  let ?a = "processFiles ext jsx cfg paths (w, g)"
  let ?b = "processFiles ext jsx cfg paths2 (w, g2)"
  assume a: "distinct paths \<and> distinct paths2 \<and> set paths2 = set paths \<and> visited g2 = visited g"
  have "?a = (fst ?a, fst (snd ?a), snd (snd ?a))" "?b = (fst ?b, fst (snd ?b), snd (snd ?b))"
    by simp_all
  from processFiles_order [OF this] a
  show "files (fst (snd ?b)) = files (fst (snd ?a))"
    by simp
qed

theorem resolution_pure_witness:
  "visited gOther = visited gBoth \<and>
   currentVisitingFile gBoth = join [''/p'', ''b.ts''] \<and>
   currentVisitingFile gOther = join [''/p'', ''c.ts''] \<and>
   fst (updateImportPath False (Some (StringLiteral ''./a'')) gBoth) =
     Some (StringLiteral ''./a.js'') \<and>
   fst (updateImportPath False (Some (StringLiteral ''./a'')) gOther) =
     Some (StringLiteral ''./a.js'') \<and>
   files (fst (snd (processFiles toyExternals False None [''/p/b.ts'', ''/p/a.ts'']
       (toyWorld, gToy\<lparr>hasUpdate := True\<rparr>)))) =
     files (fst (snd (processFiles toyExternals False None [''/p/a.ts'', ''/p/b.ts'']
       (toyWorld, gToy))))"
proof -
  have v: "visited gOther = visited gBoth" by code_simp
  have c: "currentVisitingFile gBoth = join [''/p'', ''b.ts'']"
    "currentVisitingFile gOther = join [''/p'', ''c.ts'']" by code_simp+
  have d: "''/p'' \<noteq> []" "hd ''/p'' = CHR ''/''" "regularSegment ''b.ts''" "regularSegment ''c.ts''"
    by code_simp+
  have r: "fst (updateImportPath False (Some (StringLiteral ''./a'')) gBoth) =
     Some (StringLiteral ''./a.js'')" by code_simp
  have p: "distinct [''/p/a.ts'', ''/p/b.ts'']" "distinct [''/p/b.ts'', ''/p/a.ts'']"
    "set [''/p/b.ts'', ''/p/a.ts''] = set [''/p/a.ts'', ''/p/b.ts'']"
    "visited (gToy\<lparr>hasUpdate := True\<rparr>) = visited gToy"
    by auto
  note pure = resolution_pure [where ?g2.0 = gOther and g = gBoth and jsx = False
      and n = "Some (StringLiteral ''./a'')" and dir = "''/p''" and name = "''b.ts''"
      and ?name2.0 = "''c.ts''"]
  note order = resolution_pure [where ?g2.0 = "gToy\<lparr>hasUpdate := True\<rparr>" and g = gToy
      and jsx = False and paths = "[''/p/a.ts'', ''/p/b.ts'']"
      and ?paths2.0 = "[''/p/b.ts'', ''/p/a.ts'']" and ext = toyExternals and cfg = None
      and w = toyWorld]
  from pure [THEN conjunct2, THEN conjunct1] v c d
  have "fst (updateImportPath False (Some (StringLiteral ''./a'')) gOther) =
     fst (updateImportPath False (Some (StringLiteral ''./a'')) gBoth)"
    by blast
  then have o: "fst (updateImportPath False (Some (StringLiteral ''./a'')) gOther) =
     Some (StringLiteral ''./a.js'')"
    by (simp only: r)
  from order [THEN conjunct2, THEN conjunct2, THEN conjunct2, THEN conjunct2, THEN conjunct2,
      THEN conjunct2] p
  have "files (fst (snd (processFiles toyExternals False None
       [''/p/b.ts'', ''/p/a.ts''] (toyWorld, gToy\<lparr>hasUpdate := True\<rparr>)))) =
     files (fst (snd (processFiles toyExternals False None [''/p/a.ts'', ''/p/b.ts'']
       (toyWorld, gToy))))"
    by blast
  with v c r o show ?thesis
    by blast
qed

end
